theory Spec2Isabelle
  imports Complex_Main "HOL-Library.Stream"
begin

section \<open>Numbers\<close>

text \<open>
  A JavaScript number is an IEEE 754 double. The doubles are the reals \<open>n * 2 ^ k\<close> with
  \<open>\<bar>n\<bar> \<le> 2 ^ 53\<close> and \<open>k \<ge> -1074\<close>, and every arithmetic operation returns the exact
  result rounded to the nearest double, a tie going to the double with the even \<open>n\<close>.
  \<open>fl\<close> is this rounding: \<open>binade x\<close> is the exponent of \<open>x\<close> (no less than -1022, where
  the subnormal numbers begin), \<open>ulp x\<close> the distance of the doubles around \<open>x\<close>, and
  \<open>rne\<close> rounds to the nearest integer, ties to even. Overflow to infinity is left out:
  the numbers of the program stay far below \<open>2 ^ 1024\<close>.
\<close>

definition rne :: "real \<Rightarrow> int" where
  "rne q = (let f = \<lfloor>q\<rfloor>; d = q - of_int f
            in if d < 1/2 then f else if 1/2 < d then f + 1 else if even f then f else f + 1)"

definition binade :: "real \<Rightarrow> int" where
  "binade x = max \<lfloor>log 2 \<bar>x\<bar>\<rfloor> (- 1022)"

definition ulp :: "real \<Rightarrow> real" where
  "ulp x = 2 powi (binade x - 52)"

definition fl :: "real \<Rightarrow> real" where
  "fl x = (if x = 0 then 0 else of_int (rne (x / ulp x)) * ulp x)"

definition is_double :: "real \<Rightarrow> bool" where
  "is_double x = (fl x = x)"

section \<open>The random source\<close>

text \<open>
  \<open>Math.random()\<close> is the one source of randomness. Its global state is modelled as the
  stream of the values it is going to return, each call taking the head of the stream.
  The host guarantees every value to be a double in \<open>[0, 1)\<close>, which is the predicate
  \<open>valid_rng\<close>.
\<close>

type_synonym rng = "real stream"

definition valid_rng :: "rng \<Rightarrow> bool" where
  "valid_rng g = (\<forall>r \<in> sset g. is_double r \<and> 0 \<le> r \<and> r < 1)"

definition Math_random :: "rng \<Rightarrow> real \<times> rng" where
  "Math_random g = (shd g, stl g)"

subsection \<open>util.js\<close>

text \<open>\<^verbatim>\<open>randomInt = (max, min = 0) => min + Math.floor(Math.random() * max)\<close>\<close>

definition randomInt :: "real \<Rightarrow> int \<Rightarrow> rng \<Rightarrow> int \<times> rng" where
  "randomInt mx mn g = (case Math_random g of (r, g') \<Rightarrow> (mn + \<lfloor>fl (r * mx)\<rfloor>, g'))"

text \<open>\<^verbatim>\<open>randomFloat = (max, min = 0) => min + (Math.random() * max)\<close>\<close>

definition randomFloat :: "real \<Rightarrow> real \<Rightarrow> rng \<Rightarrow> real \<times> rng" where
  "randomFloat mx mn g = (case Math_random g of (r, g') \<Rightarrow> (fl (mn + fl (r * mx)), g'))"

text \<open>\<^verbatim>\<open>random8BitColor = () => Math.random() * 0xffffff\<close>\<close>

definition random8BitColor :: "rng \<Rightarrow> real \<times> rng" where
  "random8BitColor g = (case Math_random g of (r, g') \<Rightarrow> (fl (r * 16777215), g'))"

section \<open>Spawn parameters\<close>

text \<open>The object literals \<open>{x, y, z}\<close> and \<open>{x, y, z, w}\<close> of the source.\<close>

record vec3 =
  vx :: real
  vy :: real
  vz :: real

record quat =
  qx :: real
  qy :: real
  qz :: real
  qw :: real

record random_params =
  randomColor :: real
  randomScale :: real
  randomRadius :: real
  randomLength :: real
  randomX :: real
  randomY :: real
  randomZ :: real
  randomMass :: real
  randomQuaternion :: quat

text \<open>
  \<open>generateRandomObjectParams\<close>: ten calls of \<open>Math.random\<close>, in the order of the
  source: colour, scale, length, x, y, z, mass, and the three quaternion components (the
  third by a direct call of \<open>Math.random\<close>).
\<close>

definition generateRandomObjectParams :: "rng \<Rightarrow> random_params \<times> rng" where
  "generateRandomObjectParams g0 =
     (case random8BitColor g0 of (randomColor', g1) \<Rightarrow>
      case randomFloat 1 0.75 g1 of (randomScale', g2) \<Rightarrow>
      let randomRadius' = fl (randomScale' * 0.75) in
      case randomFloat 2 1 g2 of (randomLength', g3) \<Rightarrow>
      case randomFloat 5 (- 5) g3 of (randomX', g4) \<Rightarrow>
      case randomFloat 25 20 g4 of (randomY', g5) \<Rightarrow>
      case randomFloat 5 (- 5) g5 of (randomZ', g6) \<Rightarrow>
      case randomFloat (fl (5 + randomScale')) 5 g6 of (randomMass', g7) \<Rightarrow>
      case randomFloat 360 0 g7 of (quatX, g8) \<Rightarrow>
      case randomFloat 360 0 g8 of (quatY, g9) \<Rightarrow>
      case Math_random g9 of (r, g10) \<Rightarrow>
      (\<lparr>randomColor = randomColor', randomScale = randomScale',
        randomRadius = randomRadius', randomLength = randomLength',
        randomX = randomX', randomY = randomY', randomZ = randomZ',
        randomMass = randomMass',
        randomQuaternion = \<lparr>qx = quatX, qy = quatY, qz = fl (r * 360), qw = 1\<rparr>\<rparr>, g10))"


section \<open>Objects of the graphics and the physics library\<close>

text \<open>
  Objects are shared: a mesh is held by the scene and by the array \<open>rigidBodies\<close>, a
  rigid body by the mesh (\<open>userData.physicsBody\<close>) and by the physics world. They are
  therefore kept in stores, from references to records, and the containers hold
  references.
\<close>

type_synonym ref = nat

datatype geometry =
    BoxGeometry real real real
  | CapsuleGeometry real real
  | SphereGeometry real nat nat

text \<open>
  The position of a mesh is written in two ways: with one argument, a \<open>THREE.Vector3\<close>,
  by the three creation methods, and with three numbers by \<open>updatePhysics\<close>. The model
  keeps the arguments of the last call.
\<close>

datatype mesh_position =
    Position_set_Vector3 vec3
  | Position_set real real real

record mesh =
  name :: string
  geometry :: geometry
  color :: real
  castShadow :: bool
  receiveShadow :: bool
  position :: mesh_position
  quaternion :: quat
  physicsBody :: ref

datatype shape =
    btBoxShape vec3
  | btCapsuleShape real real
  | btSphereShape real

record btTransform =
  origin :: vec3
  rotation :: quat

text \<open>
  Modelled from the spec: the physics library (ammo.js) is not among the sources. A rigid
  body is what \<open>create-rigid-body(shape, mass, initial-transform, restitution, margin)\<close>
  is given; its motion state is the world transform that \<open>query-world-transform(body)\<close>
  reports, and is absent when the body has none. The local inertia is computed inside the
  library and is left out.
\<close>

record btRigidBody =
  mass :: real
  motionState :: "btTransform option"
  collisionShape :: shape
  margin :: real
  restitution :: real

text \<open>
  Modelled from the spec: \<open>eB\<close> is the field of a wrapper object of ammo.js holding the
  address of the wrapped body. Bodies are referred to by this address.
\<close>

definition eB :: "ref \<Rightarrow> ref" where
  "eB body = body"

text \<open>
  Calls that reach outside the engine during a frame are recorded, in order, in a trace.
\<close>

datatype effect =
    Clock_getDelta real
  | StepSimulation real nat
  | GetWorldTransform ref
  | Set_position_quaternion ref vec3 quat
  | Renderer_render
  | Call_renderCallback "real list"
  | RequestAnimationFrame

text \<open>
  The one function ever assigned to \<open>renderCallback\<close> is the closure of the scene
  script that refreshes the read-out panel. It writes to the page and to \<open>lastFrameTime\<close>,
  neither of which is modelled; \<open>None\<close> stands for \<open>undefined\<close>.
\<close>

datatype callback = Readout_callback

section \<open>Engine\<close>

text \<open>
  The fields of \<open>Engine\<close> that the registry, the frame and the keys work on. The stores
  \<open>meshes\<close> and \<open>bodies\<close> hold the objects made so far, \<open>nextMeshId\<close> and \<open>nextPtr\<close>
  are the references of the next ones; \<open>scene\<close> and \<open>physicsUniverse\<close> are the members of
  the scene and of the physics world. Camera, lights, renderer and clock are set up once
  and take no part in what follows; the calls to them appear in the trace.
\<close>

record engine =
  meshes :: "ref \<rightharpoonup> mesh"
  nextMeshId :: ref
  bodies :: "ref \<rightharpoonup> btRigidBody"
  nextPtr :: ref
  scene :: "ref list"
  physicsUniverse :: "ref list"
  rigidBodies :: "ref list"
  tmpTransformation :: btTransform
  renderCallback :: "callback option"
  trace :: "effect list"

text \<open>The state after the constructor and the two \<open>init...Universe\<close> methods.\<close>

definition new_Engine :: engine where
  "new_Engine =
     \<lparr>meshes = Map.empty, nextMeshId = 0, bodies = Map.empty, nextPtr = 0,
      scene = [], physicsUniverse = [], rigidBodies = [],
      tmpTransformation =
        \<lparr>origin = \<lparr>vx = 0, vy = 0, vz = 0\<rparr>, rotation = \<lparr>qx = 0, qy = 0, qz = 0, qw = 1\<rparr>\<rparr>,
      renderCallback = None, trace = []\<rparr>"

text \<open>
  Modelled from the spec: \<open>add/remove-from-scene\<close> of the graphics library and
  \<open>add/remove-body\<close> of the physics library. A scene and a world keep their members in
  an array; adding appends, removing takes the member out.
\<close>

definition scene_add :: "ref \<Rightarrow> engine \<Rightarrow> engine" where
  "scene_add obj eng = eng\<lparr>scene := scene eng @ [obj]\<rparr>"

definition scene_remove :: "ref \<Rightarrow> engine \<Rightarrow> engine" where
  "scene_remove obj eng = eng\<lparr>scene := remove1 obj (scene eng)\<rparr>"

definition addRigidBody :: "ref \<Rightarrow> engine \<Rightarrow> engine" where
  "addRigidBody body eng = eng\<lparr>physicsUniverse := physicsUniverse eng @ [body]\<rparr>"

definition removeCollisionObject :: "ref \<Rightarrow> engine \<Rightarrow> engine" where
  "removeCollisionObject ptr eng = eng\<lparr>physicsUniverse := remove1 ptr (physicsUniverse eng)\<rparr>"

text \<open>
  The common part of \<open>createBox\<close>, \<open>createCapsule\<close> and \<open>createSphere\<close>, which differ
  in the geometry and the collision shape only: a mesh that casts and receives shadows,
  positioned by \<open>position.set(this.Vector3(...))\<close> and added to the scene; a rigid body
  with a default motion state at the given transform, margin 0.05 and restitution 0.75,
  added to the world; the mesh pointing to the body and pushed on \<open>rigidBodies\<close>. The
  result is the reference of the new mesh and the new state.
\<close>

definition create_mesh_body ::
  "geometry \<Rightarrow> shape \<Rightarrow> vec3 \<Rightarrow> quat \<Rightarrow> real \<Rightarrow> string \<Rightarrow> real \<Rightarrow> engine \<Rightarrow> ref \<times> engine" where
  "create_mesh_body geom structColShape pos quaternion' mass' name' color' eng =
     (let obj = nextMeshId eng;
          m = \<lparr>name = name', geometry = geom, color = color',
               castShadow = True, receiveShadow = True,
               position = Position_set_Vector3 \<lparr>vx = vx pos, vy = vy pos, vz = vz pos\<rparr>,
               quaternion = \<lparr>qx = 0, qy = 0, qz = 0, qw = 1\<rparr>,
               physicsBody = nextPtr eng\<rparr>;
          eng1 = scene_add obj (eng\<lparr>meshes := (meshes eng)(obj \<mapsto> m), nextMeshId := Suc obj\<rparr>);
          transform = \<lparr>origin = \<lparr>vx = vx pos, vy = vy pos, vz = vz pos\<rparr>,
                       rotation = \<lparr>qx = qx quaternion', qy = qy quaternion',
                                   qz = qz quaternion', qw = qw quaternion'\<rparr>\<rparr>;
          body = nextPtr eng1;
          b = \<lparr>mass = mass', motionState = Some transform, collisionShape = structColShape,
               margin = 0.05, restitution = 0.75\<rparr>;
          eng2 = addRigidBody body (eng1\<lparr>bodies := (bodies eng1)(body \<mapsto> b), nextPtr := Suc body\<rparr>)
      in (obj, eng2\<lparr>rigidBodies := rigidBodies eng2 @ [obj]\<rparr>))"

text \<open>The first argument of \<open>createBox\<close> is a number or an object \<open>{x, y, z}\<close>.\<close>

datatype scale_arg = Scale_number real | Scale_object vec3

text \<open>
  The three creation methods. Their optional parameters \<open>name\<close> and \<open>color\<close> are given
  by every caller. \<open>createBox\<close> and \<open>createSphere\<close> return the mesh; \<open>createCapsule\<close>
  has no \<open>return\<close>, so its result is \<open>undefined\<close>, here \<open>None\<close>.
\<close>

definition createBox ::
  "scale_arg \<Rightarrow> vec3 \<Rightarrow> quat \<Rightarrow> real \<Rightarrow> string \<Rightarrow> real \<Rightarrow> engine \<Rightarrow> ref option \<times> engine" where
  "createBox scale_in pos quaternion' mass' name' color' eng =
     (let scale = (case scale_in of
                     Scale_number n \<Rightarrow> \<lparr>vx = n, vy = n, vz = n\<rparr>
                   | Scale_object v \<Rightarrow> v)
      in case create_mesh_body (BoxGeometry (vx scale) (vy scale) (vz scale))
                (btBoxShape \<lparr>vx = fl (vx scale * 0.5), vy = fl (vy scale * 0.5),
                             vz = fl (vz scale * 0.5)\<rparr>)
                pos quaternion' mass' name' color' eng
         of (cube, eng') \<Rightarrow> (Some cube, eng'))"

definition createCapsule ::
  "real \<Rightarrow> real \<Rightarrow> vec3 \<Rightarrow> quat \<Rightarrow> real \<Rightarrow> string \<Rightarrow> real \<Rightarrow> engine \<Rightarrow> ref option \<times> engine" where
  "createCapsule radius len pos quaternion' mass' name' color' eng =
     (case create_mesh_body (CapsuleGeometry radius len) (btCapsuleShape radius len)
             pos quaternion' mass' name' color' eng
      of (capsule, eng') \<Rightarrow> (None, eng'))"

definition createSphere ::
  "real \<Rightarrow> vec3 \<Rightarrow> quat \<Rightarrow> real \<Rightarrow> string \<Rightarrow> real \<Rightarrow> engine \<Rightarrow> ref option \<times> engine" where
  "createSphere radius pos quaternion' mass' name' color' eng =
     (case create_mesh_body (SphereGeometry radius 32 16) (btSphereShape radius)
             pos quaternion' mass' name' color' eng
      of (sphere, eng') \<Rightarrow> (Some sphere, eng'))"

subsection \<open>The frame\<close>

text \<open>
  What the surroundings supply to one frame: the value of \<open>clock.getDelta()\<close>, and the
  outcome of the physics step, the motion state that the physics library leaves each body
  with.
\<close>

record frame =
  delta :: real
  motion :: "ref \<Rightarrow> btTransform option"

text \<open>
  Modelled from the spec: \<open>step-simulation(delta, substeps)\<close> belongs to the physics
  library, which is not among the sources. The step leaves every body of the world with
  the motion state the library computed for it, \<open>mo body\<close>, whatever that is. A body of
  mass 0 is static and immovable (\<open>Mass = 0 objects never move across any number of
  simulation steps\<close>): the step leaves it as it is. Bodies outside the world are not
  stepped, and nothing else of the engine changes.
\<close>

definition stepSimulation :: "(ref \<Rightarrow> btTransform option) \<Rightarrow> real \<Rightarrow> nat \<Rightarrow> engine \<Rightarrow> engine" where
  "stepSimulation mo deltaTime maxSubSteps eng =
     eng\<lparr>bodies := (\<lambda>p. if p \<in> set (physicsUniverse eng)
                          then map_option (\<lambda>b. if mass b = 0 then b else b\<lparr>motionState := mo p\<rparr>)
                                 (bodies eng p)
                          else bodies eng p),
         trace := trace eng @ [StepSimulation deltaTime maxSubSteps]\<rparr>"

text \<open>
  The body of the \<open>forEach\<close> of \<open>updatePhysics\<close>. A reference of the program always
  denotes an object, so the two outer \<open>None\<close> branches lie outside the states of the
  program; the inner one is the test \<open>if (motionState)\<close>.
\<close>

definition syncObject :: "ref \<Rightarrow> engine \<Rightarrow> engine" where
  "syncObject rigidBody eng =
     (case meshes eng rigidBody of
        None \<Rightarrow> eng
      | Some Graphics_Object \<Rightarrow>
          (case bodies eng (physicsBody Graphics_Object) of
             None \<Rightarrow> eng
           | Some Physics_Object \<Rightarrow>
               (case motionState Physics_Object of
                  None \<Rightarrow> eng
                | Some worldTransform \<Rightarrow>
                    (let eng1 = eng\<lparr>tmpTransformation := worldTransform,
                                    trace := trace eng @ [GetWorldTransform (physicsBody Graphics_Object)]\<rparr>;
                         newPosition = origin (tmpTransformation eng1);
                         newQuaternion = rotation (tmpTransformation eng1)
                     in eng1\<lparr>meshes := (meshes eng1)(rigidBody \<mapsto>
                                Graphics_Object\<lparr>
                                  position := Position_set (vx newPosition) (vy newPosition) (vz newPosition),
                                  quaternion := \<lparr>qx = qx newQuaternion, qy = qy newQuaternion,
                                                 qz = qz newQuaternion, qw = qw newQuaternion\<rparr>\<rparr>),
                             trace := trace eng1 @
                                [Set_position_quaternion rigidBody newPosition newQuaternion]\<rparr>))))"

definition updatePhysics :: "(ref \<Rightarrow> btTransform option) \<Rightarrow> real \<Rightarrow> engine \<Rightarrow> engine" where
  "updatePhysics mo deltaTime eng =
     (let eng1 = stepSimulation mo deltaTime 10 eng
      in fold syncObject (rigidBodies eng1) eng1)"

definition call_renderCallback :: "callback \<Rightarrow> engine \<Rightarrow> engine" where
  "call_renderCallback cb eng = eng\<lparr>trace := trace eng @ [Call_renderCallback []]\<rparr>"

definition render :: "frame \<Rightarrow> engine \<Rightarrow> engine" where
  "render fr eng =
     (let deltaTime = delta fr;
          eng0 = eng\<lparr>trace := trace eng @ [Clock_getDelta deltaTime]\<rparr>;
          eng1 = updatePhysics (motion fr) deltaTime eng0;
          eng2 = eng1\<lparr>trace := trace eng1 @ [Renderer_render]\<rparr>;
          eng3 = (case renderCallback eng2 of
                    Some cb \<Rightarrow> call_renderCallback cb eng2
                  | None \<Rightarrow> eng2)
      in eng3\<lparr>trace := trace eng3 @ [RequestAnimationFrame]\<rparr>)"

section \<open>The scene script\<close>

text \<open>
  The variables of the script: the engine \<open>E\<close>, \<open>floorIsShowing\<close>, \<open>intervalRef\<close>
  (\<open>None\<close> for \<open>undefined\<close>), and from the host the state of \<open>Math.random\<close> and the
  timers: \<open>setInterval\<close> hands out positive identifiers, \<open>timers\<close> are the running ones.
\<close>

record app =
  E :: engine
  floorIsShowing :: bool
  intervalRef :: "nat option"
  rng :: rng
  timerCount :: nat
  timers :: "nat list"

definition makeFloor :: "engine \<Rightarrow> engine" where
  "makeFloor eng0 =
     (let eng1 = snd (createBox (Scale_object \<lparr>vx = 22, vy = 7, vz = 1\<rparr>) \<lparr>vx = 0, vy = 2, vz = 11\<rparr>
                   \<lparr>qx = 0.25, qy = 0, qz = 0, qw = 1\<rparr> 0 ''floor'' 13421772 eng0);
          eng2 = snd (createBox (Scale_object \<lparr>vx = 1, vy = 7, vz = 22\<rparr>) \<lparr>vx = - 11, vy = 2, vz = 0\<rparr>
                   \<lparr>qx = 0, qy = 0, qz = 0.25, qw = 1\<rparr> 0 ''floor'' 13421772 eng1);
          eng3 = snd (createBox (Scale_object \<lparr>vx = 22, vy = 7, vz = 1\<rparr>) \<lparr>vx = 0, vy = 2, vz = - 11\<rparr>
                   \<lparr>qx = - 0.25, qy = 0, qz = 0, qw = 1\<rparr> 0 ''floor'' 13421772 eng2);
          eng4 = snd (createBox (Scale_object \<lparr>vx = 1, vy = 7, vz = 22\<rparr>) \<lparr>vx = 11, vy = 2, vz = 0\<rparr>
                   \<lparr>qx = 0, qy = 0, qz = - 0.25, qw = 1\<rparr> 0 ''floor'' 13421772 eng3)
      in snd (createBox (Scale_object \<lparr>vx = 21, vy = 2, vz = 21\<rparr>) \<lparr>vx = 0, vy = 0, vz = 0\<rparr>
                \<lparr>qx = 0, qy = 0, qz = 0, qw = 1\<rparr> 0 ''floor'' 13421772 eng4))"

text \<open>The three spawning calls, written the same way at every place of the script.\<close>

definition spawnSphere :: "random_params \<Rightarrow> engine \<Rightarrow> engine" where
  "spawnSphere rp eng =
     snd (createSphere (randomRadius rp) \<lparr>vx = randomX rp, vy = randomY rp, vz = randomZ rp\<rparr>
            (randomQuaternion rp) (randomMass rp) ''sphere'' (randomColor rp) eng)"

definition spawnBox :: "random_params \<Rightarrow> engine \<Rightarrow> engine" where
  "spawnBox rp eng =
     snd (createBox (Scale_number (randomScale rp)) \<lparr>vx = randomX rp, vy = randomY rp, vz = randomZ rp\<rparr>
            (randomQuaternion rp) (randomMass rp) ''box'' (randomColor rp) eng)"

definition spawnCapsule :: "random_params \<Rightarrow> engine \<Rightarrow> engine" where
  "spawnCapsule rp eng =
     snd (createCapsule (fl (randomRadius rp / 2)) (randomLength rp)
            \<lparr>vx = randomX rp, vy = randomY rp, vz = randomZ rp\<rparr>
            (randomQuaternion rp) (randomMass rp) ''capsule'' (randomColor rp) eng)"

text \<open>
  The graphics library (three.js) is not among the sources. Its constructors give every
  mesh, every geometry and every material a UUID made of four values of \<open>Math.random\<close>:
  making a mesh with its geometry and its material takes twelve values from the random
  source. \<open>made n\<close> is the state of the random source after \<open>n\<close> meshes were made.
\<close>

definition made :: "nat \<Rightarrow> rng \<Rightarrow> rng" where
  "made n g = sdrop (12 * n) g"

definition generateRandomObject :: "random_params \<Rightarrow> app \<Rightarrow> app" where
  "generateRandomObject rp s =
     (case randomInt 3 0 (rng s) of (whichFunction, g') \<Rightarrow>
        let s1 = s\<lparr>rng := g'\<rparr> in
        if whichFunction = 0 then s1\<lparr>E := spawnCapsule rp (E s1), rng := made 1 (rng s1)\<rparr>
        else if whichFunction = 1 then s1\<lparr>E := spawnSphere rp (E s1), rng := made 1 (rng s1)\<rparr>
        else if whichFunction = 2 then s1\<lparr>E := spawnBox rp (E s1), rng := made 1 (rng s1)\<rparr>
        else s1)"

text \<open>
  The loops of the cases \<open>KeyR\<close> and \<open>KeyF\<close> consist of the same statements and differ
  in the test on the name, which is the parameter \<open>t\<close> here. \<open>tmp\<close> is the copy of
  \<open>rigidBodies\<close>, with \<open>None\<close> for \<open>null\<close>.
\<close>

definition removeStep ::
  "(string \<Rightarrow> bool) \<Rightarrow> nat \<times> ref \<Rightarrow> engine \<times> ref option list \<Rightarrow> engine \<times> ref option list" where
  "removeStep t = (\<lambda>(i, rigidBody) (eng, tmp).
     case meshes eng rigidBody of
       None \<Rightarrow> (eng, tmp)
     | Some m \<Rightarrow>
         if t (name m)
         then (removeCollisionObject (eB (physicsBody m)) (scene_remove rigidBody eng),
               tmp[i := None])
         else (eng, tmp))"

definition removeBodies :: "(string \<Rightarrow> bool) \<Rightarrow> engine \<Rightarrow> engine" where
  "removeBodies t eng =
     (case fold (removeStep t) (enumerate 0 (rigidBodies eng)) (eng, map Some (rigidBodies eng))
      of (eng', tmp) \<Rightarrow> eng'\<lparr>rigidBodies := [r. Some r \<leftarrow> tmp]\<rparr>)"

text \<open>\<open>if (intervalRef)\<close>: \<open>undefined\<close> and 0 are falsy.\<close>

fun truthy :: "nat option \<Rightarrow> bool" where
  "truthy None = False"
| "truthy (Some n) = (n \<noteq> 0)"

text \<open>The function given to \<open>setInterval\<close>.\<close>

definition autoSpawn :: "app \<Rightarrow> app" where
  "autoSpawn s =
     (case generateRandomObjectParams (rng s) of (rp, g') \<Rightarrow>
        generateRandomObject rp (s\<lparr>rng := g'\<rparr>))"

text \<open>The \<open>switch\<close> of the listener of \<open>keypress\<close>, on the \<open>code\<close> of the event.\<close>

definition dispatch :: "string \<Rightarrow> random_params \<Rightarrow> app \<Rightarrow> app" where
  "dispatch code rp s =
     (if code = ''KeyS'' then s\<lparr>E := spawnSphere rp (E s), rng := made 1 (rng s)\<rparr>
      else if code = ''KeyB'' then s\<lparr>E := spawnBox rp (E s), rng := made 1 (rng s)\<rparr>
      else if code = ''KeyC'' then s\<lparr>E := spawnCapsule rp (E s), rng := made 1 (rng s)\<rparr>
      else if code = ''Space'' then generateRandomObject rp s
      else if code = ''KeyR'' then s\<lparr>E := removeBodies (\<lambda>n. n \<noteq> ''floor'') (E s)\<rparr>
      else if code = ''KeyF'' then
        (if \<not> floorIsShowing s
         then s\<lparr>E := makeFloor (E s), rng := made 5 (rng s), floorIsShowing := True\<rparr>
         else s\<lparr>E := removeBodies (\<lambda>n. n = ''floor'') (E s), floorIsShowing := False\<rparr>)
      else if code = ''KeyG'' then
        (if truthy (intervalRef s)
         then s\<lparr>timers := removeAll (the (intervalRef s)) (timers s), intervalRef := None\<rparr>
         else s\<lparr>timerCount := Suc (timerCount s),
                timers := timers s @ [Suc (timerCount s)],
                intervalRef := Some (Suc (timerCount s))\<rparr>)
      else s)"

text \<open>
  The listener: \<open>const rp = generateRandomObjectParams()\<close>, then the \<open>switch\<close>.
\<close>

definition keypress :: "string \<Rightarrow> app \<Rightarrow> app" where
  "keypress code s0 =
     (case generateRandomObjectParams (rng s0) of (rp, g') \<Rightarrow> dispatch code rp (s0\<lparr>rng := g'\<rparr>))"

text \<open>
  The script up to the registration of the listener: \<open>E.init()\<close> renders the first
  frame, then the callback is set and the floor is made. \<open>g\<close> is the state of
  \<open>Math.random\<close> when the script has run.
\<close>

definition app_init :: "frame \<Rightarrow> rng \<Rightarrow> app" where
  "app_init fr g =
     \<lparr>E = makeFloor ((render fr new_Engine)\<lparr>renderCallback := Some Readout_callback\<rparr>),
      floorIsShowing = True, intervalRef = None, rng = g, timerCount = 0, timers = []\<rparr>"

text \<open>What happens afterwards: keys, firings of a timer, and frames.\<close>

datatype event = KeyPress string | IntervalFire nat | AnimationFrame frame

fun step :: "event \<Rightarrow> app \<Rightarrow> app" where
  "step (KeyPress code) s = keypress code s"
| "step (IntervalFire t) s = (if t \<in> set (timers s) then autoSpawn s else s)"
| "step (AnimationFrame fr) s = s\<lparr>E := render fr (E s)\<rparr>"

definition run :: "event list \<Rightarrow> app \<Rightarrow> app" where
  "run evs s = fold step evs s"

section \<open>Observations\<close>

definition mesh_name :: "engine \<Rightarrow> ref \<Rightarrow> string" where
  "mesh_name eng r = (case meshes eng r of Some m \<Rightarrow> name m | None \<Rightarrow> [])"

definition floor_objects :: "engine \<Rightarrow> ref list" where
  "floor_objects eng = filter (\<lambda>r. mesh_name eng r = ''floor'') (rigidBodies eng)"

definition other_objects :: "engine \<Rightarrow> ref list" where
  "other_objects eng = filter (\<lambda>r. mesh_name eng r \<noteq> ''floor'') (rigidBodies eng)"

text \<open>The objects that a removal loop with the test \<open>t\<close> takes out.\<close>

definition selected :: "(string \<Rightarrow> bool) \<Rightarrow> engine \<Rightarrow> ref \<Rightarrow> bool" where
  "selected t eng r = (case meshes eng r of None \<Rightarrow> False | Some m \<Rightarrow> t (name m))"

definition body_of :: "engine \<Rightarrow> ref \<Rightarrow> ref" where
  "body_of eng r = (case meshes eng r of None \<Rightarrow> 0 | Some m \<Rightarrow> physicsBody m)"

text \<open>The world transform that the physics engine reports for an object, if any.\<close>

definition transform_of :: "engine \<Rightarrow> ref \<Rightarrow> btTransform option" where
  "transform_of eng r =
     (case meshes eng r of
        None \<Rightarrow> None
      | Some m \<Rightarrow> (case bodies eng (physicsBody m) of None \<Rightarrow> None | Some b \<Rightarrow> motionState b))"

text \<open>The calls by which one object is synchronised, none when it has no motion state.\<close>

definition sync_effects :: "engine \<Rightarrow> ref \<Rightarrow> effect list" where
  "sync_effects eng r =
     (case transform_of eng r of
        None \<Rightarrow> []
      | Some t \<Rightarrow> [GetWorldTransform (body_of eng r),
                   Set_position_quaternion r (origin t) (rotation t)])"

text \<open>
  What an object of the registry is made of: name, geometry and colour of the mesh, mass
  and world transform of its body.
\<close>

record composition =
  c_name :: string
  c_geometry :: geometry
  c_color :: real
  c_mass :: real
  c_shape :: shape
  c_transform :: "btTransform option"

definition composition_of :: "engine \<Rightarrow> ref \<Rightarrow> composition option" where
  "composition_of eng r =
     (case meshes eng r of
        None \<Rightarrow> None
      | Some m \<Rightarrow>
          (case bodies eng (physicsBody m) of
             None \<Rightarrow> None
           | Some b \<Rightarrow>
               Some \<lparr>c_name = name m, c_geometry = geometry m, c_color = color m,
                     c_mass = mass b, c_shape = collisionShape b,
                     c_transform = motionState b\<rparr>))"

text \<open>The five panels of \<open>makeFloor\<close>, as they are built.\<close>

definition floor_panel :: "vec3 \<Rightarrow> vec3 \<Rightarrow> quat \<Rightarrow> composition" where
  "floor_panel sc pos q =
     \<lparr>c_name = ''floor'', c_geometry = BoxGeometry (vx sc) (vy sc) (vz sc),
      c_color = 13421772, c_mass = 0,
      c_shape = btBoxShape \<lparr>vx = fl (vx sc * 0.5), vy = fl (vy sc * 0.5), vz = fl (vz sc * 0.5)\<rparr>,
      c_transform = Some \<lparr>origin = pos, rotation = q\<rparr>\<rparr>"

definition floor_panels :: "composition list" where
  "floor_panels =
     [floor_panel \<lparr>vx = 22, vy = 7, vz = 1\<rparr> \<lparr>vx = 0, vy = 2, vz = 11\<rparr>
        \<lparr>qx = 0.25, qy = 0, qz = 0, qw = 1\<rparr>,
      floor_panel \<lparr>vx = 1, vy = 7, vz = 22\<rparr> \<lparr>vx = - 11, vy = 2, vz = 0\<rparr>
        \<lparr>qx = 0, qy = 0, qz = 0.25, qw = 1\<rparr>,
      floor_panel \<lparr>vx = 22, vy = 7, vz = 1\<rparr> \<lparr>vx = 0, vy = 2, vz = - 11\<rparr>
        \<lparr>qx = - 0.25, qy = 0, qz = 0, qw = 1\<rparr>,
      floor_panel \<lparr>vx = 1, vy = 7, vz = 22\<rparr> \<lparr>vx = 11, vy = 2, vz = 0\<rparr>
        \<lparr>qx = 0, qy = 0, qz = - 0.25, qw = 1\<rparr>,
      floor_panel \<lparr>vx = 21, vy = 2, vz = 21\<rparr> \<lparr>vx = 0, vy = 0, vz = 0\<rparr>
        \<lparr>qx = 0, qy = 0, qz = 0, qw = 1\<rparr>]"

text \<open>The floor is present: the flag is set and the registry holds these five panels.\<close>

definition floor_present :: "app \<Rightarrow> bool" where
  "floor_present s =
     (floorIsShowing s \<and>
      map (composition_of (E s)) (floor_objects (E s)) = map Some floor_panels)"

text \<open>The flag agrees with the registry: five floor objects when set, none otherwise.\<close>

definition floor_consistent :: "app \<Rightarrow> bool" where
  "floor_consistent s =
     (if floorIsShowing s then length (floor_objects (E s)) = 5 else floor_objects (E s) = [])"

text \<open>
  A state of the program: references denote objects, no object is twice in the scene or in
  the world, and no two meshes have the same body.
\<close>

definition wf_engine :: "engine \<Rightarrow> bool" where
  "wf_engine eng =
     ((\<forall>r \<in> set (rigidBodies eng). r < nextMeshId eng) \<and>
      (\<forall>r \<in> set (scene eng). r < nextMeshId eng) \<and>
      (\<forall>p \<in> set (physicsUniverse eng). p < nextPtr eng) \<and>
      (\<forall>r < nextMeshId eng. \<exists>m. meshes eng r = Some m \<and> physicsBody m < nextPtr eng) \<and>
      (\<forall>p < nextPtr eng. bodies eng p \<noteq> None) \<and>
      distinct (scene eng) \<and> distinct (physicsUniverse eng) \<and>
      inj_on (body_of eng) {..<nextMeshId eng})"



section \<open>Facts about rounding\<close>

lemma rne_of_int [simp]: "rne (of_int n) = n"
  by (simp add: rne_def)

lemma rne_cases:
  obtains (down) "q - of_int \<lfloor>q\<rfloor> < 1/2" "rne q = \<lfloor>q\<rfloor>"
  | (up) "1/2 < q - of_int \<lfloor>q\<rfloor>" "rne q = \<lfloor>q\<rfloor> + 1"
  | (tie_even) "q - of_int \<lfloor>q\<rfloor> = 1/2" "even \<lfloor>q\<rfloor>" "rne q = \<lfloor>q\<rfloor>"
  | (tie_odd) "q - of_int \<lfloor>q\<rfloor> = 1/2" "odd \<lfloor>q\<rfloor>" "rne q = \<lfloor>q\<rfloor> + 1"
  by (cases "q - of_int \<lfloor>q\<rfloor> < 1/2"; cases "1/2 < q - of_int \<lfloor>q\<rfloor>"; cases "even \<lfloor>q\<rfloor>")
     (auto simp: rne_def Let_def)

lemma rne_floor_le: "\<lfloor>q\<rfloor> \<le> rne q"
  by (cases q rule: rne_cases) simp_all

lemma rne_le_ceiling: "rne q \<le> \<lceil>q\<rceil>"
proof (cases q rule: rne_cases)
  case down
  then show ?thesis by simp
next
  case up
  then have "of_int \<lfloor>q\<rfloor> < q" by simp
  then have "\<lfloor>q\<rfloor> < \<lceil>q\<rceil>" by (simp add: floor_less_iff less_ceiling_iff)
  with up show ?thesis by simp
next
  case tie_even
  then show ?thesis by simp
next
  case tie_odd
  then have "of_int \<lfloor>q\<rfloor> < q" by simp
  then have "\<lfloor>q\<rfloor> < \<lceil>q\<rceil>" by (simp add: floor_less_iff less_ceiling_iff)
  with tie_odd show ?thesis by simp
qed

lemma rne_error: "\<bar>of_int (rne q) - q\<bar> \<le> 1/2"
proof -
  have f: "of_int \<lfloor>q\<rfloor> \<le> q" "q < of_int \<lfloor>q\<rfloor> + 1" by linarith+
  show ?thesis
  proof (cases q rule: rne_cases)
    case down
    with f show ?thesis by simp
  next
    case up
    with f show ?thesis by simp
  next
    case tie_even
    with f show ?thesis by simp
  next
    case tie_odd
    with f show ?thesis by simp
  qed
qed

lemma rne_mono:
  assumes "q \<le> q'"
  shows "rne q \<le> rne q'"
proof (cases "\<lfloor>q\<rfloor> = \<lfloor>q'\<rfloor>")
  case True
  show ?thesis
    by (cases q rule: rne_cases; cases q' rule: rne_cases) (use assms True in \<open>simp_all\<close>)
next
  case False
  then have "\<lfloor>q\<rfloor> + 1 \<le> \<lfloor>q'\<rfloor>"
    using floor_mono [OF assms] by linarith
  moreover have "rne q \<le> \<lfloor>q\<rfloor> + 1"
    by (cases q rule: rne_cases) simp_all
  ultimately show ?thesis using rne_floor_le [of q'] by linarith
qed

lemma rne_le_int: "q \<le> of_int n \<Longrightarrow> rne q \<le> n"
  using rne_mono [of q "of_int n"] by simp

lemma rne_ge_int: "of_int n \<le> q \<Longrightarrow> n \<le> rne q"
  using rne_mono [of "of_int n" q] by simp

lemma rne_minus: "rne (- q) = - rne q"
proof (cases "q = of_int \<lfloor>q\<rfloor>")
  case True
  then obtain n where "q = of_int n" ..
  then show ?thesis by (simp flip: of_int_minus)
next
  case False
  moreover have "of_int \<lfloor>q\<rfloor> \<le> q" "q < of_int \<lfloor>q\<rfloor> + 1" by linarith+
  moreover have "real_of_int (- \<lfloor>q\<rfloor> - 1) = - real_of_int \<lfloor>q\<rfloor> - 1" by simp
  ultimately have "of_int (- \<lfloor>q\<rfloor> - 1) \<le> - q" "- q < of_int (- \<lfloor>q\<rfloor> - 1) + 1"
    by linarith+
  then have f: "\<lfloor>- q\<rfloor> = - \<lfloor>q\<rfloor> - 1"
    by (rule floor_unique)
  show ?thesis
    by (cases q rule: rne_cases; cases "- q" rule: rne_cases) (use f in \<open>simp_all\<close>)
qed


lemma floor_log2:
  assumes "0 < x"
  shows "2 powi \<lfloor>log 2 x\<rfloor> \<le> x" and "x < 2 powi (\<lfloor>log 2 x\<rfloor> + 1)"
proof -
  have "2 powr real_of_int \<lfloor>log 2 x\<rfloor> \<le> x \<and> x < 2 powr real_of_int (\<lfloor>log 2 x\<rfloor> + 1)"
    using floor_log_eq_powr_iff [of x 2 "\<lfloor>log 2 x\<rfloor>"] assms by simp
  then show "2 powi \<lfloor>log 2 x\<rfloor> \<le> x" and "x < 2 powi (\<lfloor>log 2 x\<rfloor> + 1)"
    by (simp_all only: powr_real_of_int' [of 2, simplified])
qed

lemma floor_log2_eqI:
  assumes "2 powi e \<le> x" "x < 2 powi (e + 1)"
  shows "\<lfloor>log 2 x\<rfloor> = e"
proof -
  have "0 < x" using assms(1) by (rule less_le_trans [rotated]) simp
  moreover have "2 powr real_of_int e \<le> x \<and> x < 2 powr real_of_int (e + 1)"
    using assms by (simp only: powr_real_of_int' [of 2, simplified])
  ultimately show ?thesis
    using floor_log_eq_powr_iff [of x 2 e] by simp
qed

lemma ulp_pos [simp]: "0 < ulp x"
  by (simp add: ulp_def)

lemma binade_minus [simp]: "binade (- x) = binade x"
  by (simp add: binade_def)

lemma ulp_minus [simp]: "ulp (- x) = ulp x"
  by (simp add: ulp_def)

lemma fl_0 [simp]: "fl 0 = 0"
  by (simp add: fl_def)

lemma fl_minus: "fl (- x) = - fl x"
  by (simp add: fl_def rne_minus)

lemma binade_ge: "- 1022 \<le> binade x"
  by (simp add: binade_def)

lemma binade_upper:
  assumes "0 < x"
  shows "x < 2 powi (binade x + 1)"
proof -
  have "x < 2 powi (\<lfloor>log 2 x\<rfloor> + 1)" using floor_log2 [OF assms] by simp
  also have "\<dots> \<le> 2 powi (binade x + 1)"
    using assms by (intro power_int_increasing) (simp_all add: binade_def)
  finally show ?thesis .
qed

lemma binade_lower:
  assumes "0 < x" "- 1022 < binade x"
  shows "2 powi (binade x) \<le> x"
proof -
  have "binade x = \<lfloor>log 2 x\<rfloor>" using assms by (simp add: binade_def split: if_splits)
  then show ?thesis using floor_log2 [OF assms(1)] by simp
qed

lemma binade_eqI:
  assumes "2 powi e \<le> x" "x < 2 powi (e + 1)" "- 1022 \<le> e"
  shows "binade x = e"
proof -
  have "0 < x" using assms(1) by (rule less_le_trans [rotated]) simp
  then show ?thesis using floor_log2_eqI [OF assms(1,2)] assms(3) by (simp add: binade_def)
qed

lemma binade_mono:
  assumes "0 < x" "x \<le> y"
  shows "binade x \<le> binade y"
proof -
  have "log 2 x \<le> log 2 y" using assms by simp
  then have "\<lfloor>log 2 x\<rfloor> \<le> \<lfloor>log 2 y\<rfloor>" by (rule floor_mono)
  then show ?thesis using assms by (simp add: binade_def)
qed

lemma fl_nonneg:
  assumes "0 \<le> x"
  shows "0 \<le> fl x"
proof (cases "x = 0")
  case True
  then show ?thesis by simp
next
  case False
  have "0 \<le> x / ulp x" using assms by (intro divide_nonneg_pos) simp_all
  then have "real_of_int 0 \<le> x / ulp x" by simp
  then have "0 \<le> rne (x / ulp x)" by (rule rne_ge_int)
  then have "0 \<le> of_int (rne (x / ulp x)) * ulp x"
    by (intro mult_nonneg_nonneg) (simp_all add: less_imp_le)
  then show ?thesis using False by (simp add: fl_def)
qed

lemma two_powi_split: "(2::real) powi (b + 1) = of_int (2 ^ 53) * 2 powi (b - 52)"
proof -
  have "(2::real) powi (53 + (b - 52)) = 2 powi 53 * 2 powi (b - 52)"
    by (rule power_int_add) simp
  moreover have "53 + (b - 52) = b + 1" by simp
  moreover have "(2::real) powi 53 = of_int (2 ^ 53)" by simp
  ultimately show ?thesis by (simp only:)
qed

lemma two_powi_split': "(2::real) powi b = of_int (2 ^ 52) * 2 powi (b - 52)"
proof -
  have "(2::real) powi (52 + (b - 52)) = 2 powi 52 * 2 powi (b - 52)"
    by (rule power_int_add) simp
  moreover have "52 + (b - 52) = b" by simp
  moreover have "(2::real) powi 52 = of_int (2 ^ 52)" by simp
  ultimately show ?thesis by (simp only:)
qed

lemma fl_le_pow:
  assumes "0 < x"
  shows "fl x \<le> 2 powi (binade x + 1)"
proof -
  have "x / ulp x \<le> of_int (2 ^ 53)"
    using binade_upper [OF assms] unfolding two_powi_split [of "binade x"]
    by (simp add: ulp_def field_simps)
  then have "rne (x / ulp x) \<le> 2 ^ 53" by (rule rne_le_int)
  then have "of_int (rne (x / ulp x)) * ulp x \<le> of_int (2 ^ 53) * ulp x"
    by (intro mult_right_mono) (simp_all add: less_imp_le)
  then show ?thesis using assms unfolding two_powi_split [of "binade x"]
    by (simp add: fl_def ulp_def)
qed

lemma fl_ge_pow:
  assumes "2 powi (binade x) \<le> x"
  shows "2 powi (binade x) \<le> fl x"
proof -
  have pos: "0 < x" using assms by (rule less_le_trans [rotated]) simp
  have "of_int (2 ^ 52) \<le> x / ulp x"
    using assms unfolding two_powi_split' [of "binade x"]
    by (simp add: ulp_def field_simps)
  then have "2 ^ 52 \<le> rne (x / ulp x)" by (rule rne_ge_int)
  then have "of_int (2 ^ 52) * ulp x \<le> of_int (rne (x / ulp x)) * ulp x"
    by (intro mult_right_mono) (simp_all add: less_imp_le)
  then show ?thesis using pos unfolding two_powi_split' [of "binade x"]
    by (simp add: fl_def ulp_def)
qed

lemma fl_mono_pos:
  assumes "0 < x" "x \<le> y"
  shows "fl x \<le> fl y"
proof (cases "binade x = binade y")
  case True
  then have u: "ulp x = ulp y" by (simp add: ulp_def)
  have "x / ulp y \<le> y / ulp y" using assms by (simp add: divide_right_mono less_imp_le)
  then have "rne (x / ulp y) \<le> rne (y / ulp y)" by (rule rne_mono)
  then have "of_int (rne (x / ulp y)) * ulp y \<le> of_int (rne (y / ulp y)) * ulp y"
    by (intro mult_right_mono) (simp_all add: less_imp_le)
  then show ?thesis using assms by (simp add: fl_def u)
next
  case False
  then have lt: "binade x < binade y" using binade_mono [OF assms] by simp
  then have "- 1022 < binade y" using binade_ge [of x] by linarith
  moreover have "0 < y" using assms by simp
  ultimately have "2 powi (binade y) \<le> fl y" by (intro fl_ge_pow binade_lower)
  moreover have "fl x \<le> 2 powi (binade x + 1)" by (rule fl_le_pow [OF assms(1)])
  moreover have "(2::real) powi (binade x + 1) \<le> 2 powi (binade y)"
    using lt by (intro power_int_increasing) simp_all
  ultimately show ?thesis by linarith
qed

lemma fl_mono:
  assumes "x \<le> y"
  shows "fl x \<le> fl y"
proof -
  consider "0 < x" | "x \<le> 0" "0 \<le> y" | "y < 0" by linarith
  then show ?thesis
  proof cases
    case 1
    then show ?thesis using assms by (rule fl_mono_pos)
  next
    case 2
    then have "0 \<le> fl y" "0 \<le> fl (- x)" by (simp_all add: fl_nonneg)
    then show ?thesis by (simp add: fl_minus)
  next
    case 3
    then have "fl (- y) \<le> fl (- x)" using assms by (intro fl_mono_pos) simp_all
    then show ?thesis by (simp add: fl_minus)
  qed
qed


lemma binade_le_of_less:
  assumes "0 < x" "x < 2 powi (e + 1)" "- 1022 \<le> e"
  shows "binade x \<le> e"
proof -
  have "2 powi \<lfloor>log 2 x\<rfloor> < (2::real) powi (e + 1)"
    using floor_log2(1) [OF assms(1)] assms(2) by linarith
  then have "\<lfloor>log 2 x\<rfloor> < e + 1"
    by (metis not_less power_int_increasing one_le_numeral)
  then show ?thesis using assms by (simp add: binade_def)
qed

lemma fl_exact_aux:
  assumes "x = of_int n * 2 powi k" "\<bar>n\<bar> < 2 ^ 53" "- 1074 \<le> k"
  shows "fl x = x"
proof (cases "n = 0")
  case True
  then show ?thesis using assms by simp
next
  case False
  have ax: "\<bar>x\<bar> = of_int \<bar>n\<bar> * 2 powi k" by (simp add: assms(1) abs_mult)
  have pos: "0 < \<bar>x\<bar>" using False by (simp add: assms(1))
  have "of_int \<bar>n\<bar> < (2::real) ^ 53"
    using assms(2) by (metis of_int_less_iff of_int_numeral of_int_power)
  then have "\<bar>x\<bar> < 2 ^ 53 * 2 powi k"
    unfolding ax by (intro mult_strict_right_mono) simp_all
  also have "(2::real) ^ 53 * 2 powi k = 2 powi (k + 52 + 1)"
    using power_int_add [of "2::real" 53 k] by (simp add: add.commute)
  finally have "binade \<bar>x\<bar> \<le> k + 52"
    using pos assms(3) by (intro binade_le_of_less) simp_all
  then have le: "binade x - 52 \<le> k" using assms(3) by (auto simp: binade_def max_def)
  define m where "m = nat (k - (binade x - 52))"
  have "(2::real) powi k = 2 powi (int m + (binade x - 52))"
    using le by (simp add: m_def)
  also have "\<dots> = 2 ^ m * 2 powi (binade x - 52)"
    by (subst power_int_add) simp_all
  finally have k: "(2::real) powi k = 2 ^ m * ulp x" by (simp add: ulp_def)
  define u where "u = ulp x"
  have u: "0 < u" by (simp add: u_def)
  have "x = of_int n * (2 ^ m * u)" using assms(1) k by (simp only: u_def)
  then have xu: "x = of_int (n * 2 ^ m) * u" by simp
  then have "x / u = of_int (n * 2 ^ m)" using u by simp
  then have "rne (x / u) = n * 2 ^ m" by (simp only: rne_of_int)
  then have "of_int (rne (x / u)) * u = x" using xu by simp
  moreover have "x \<noteq> 0" using pos by simp
  ultimately show ?thesis by (simp add: fl_def u_def)
qed

lemma fl_exact:
  assumes "x = of_int n * 2 powi k" "\<bar>n\<bar> \<le> 2 ^ 53" "- 1074 \<le> k"
  shows "fl x = x"
proof (cases "\<bar>n\<bar> < 2 ^ 53")
  case True
  then show ?thesis using assms by (intro fl_exact_aux [of x n k])
next
  case False
  then have n: "\<bar>n\<bar> = 2 ^ 53" using assms(2) by simp
  then have "even \<bar>n\<bar>" by simp
  then have "even n" by simp
  then have "n = 2 * (n div 2)" by simp
  then have "real_of_int n = 2 * of_int (n div 2)"
    by (metis of_int_mult of_int_numeral)
  then have "x = of_int (n div 2) * 2 powi (k + 1)"
    by (simp add: assms(1) power_int_add)
  moreover have "\<bar>n div 2\<bar> < 2 ^ 53" using n by (auto simp: abs_if split: if_splits)
  ultimately show ?thesis using assms(3) by (intro fl_exact_aux [of x "n div 2" "k + 1"]) simp_all
qed

lemma is_doubleI:
  "x = of_int n * 2 powi k \<Longrightarrow> \<bar>n\<bar> \<le> 2 ^ 53 \<Longrightarrow> - 1074 \<le> k \<Longrightarrow> is_double x"
  unfolding is_double_def by (rule fl_exact)

lemma rne_abs_le:
  assumes "\<bar>q\<bar> \<le> of_int N"
  shows "\<bar>rne q\<bar> \<le> N"
proof -
  have "q \<le> of_int N" "of_int (- N) \<le> q" using assms by simp_all
  then have "rne q \<le> N" and "- N \<le> rne q"
    by (simp_all add: rne_le_int rne_ge_int)
  then show ?thesis by simp
qed

lemma fl_idem [simp]: "fl (fl x) = fl x"
proof (cases "x = 0")
  case True
  then show ?thesis by simp
next
  case False
  then have "0 < \<bar>x\<bar>" by simp
  then have "\<bar>x\<bar> < of_int (2 ^ 53) * 2 powi (binade x - 52)"
    using binade_upper [of "\<bar>x\<bar>"] by (simp add: two_powi_split binade_def)
  then have "\<bar>x / ulp x\<bar> \<le> of_int (2 ^ 53)"
    by (simp add: ulp_def field_simps)
  then have "\<bar>rne (x / ulp x)\<bar> \<le> 2 ^ 53" by (rule rne_abs_le)
  moreover have "fl x = of_int (rne (x / ulp x)) * 2 powi (binade x - 52)"
    using False by (simp add: fl_def ulp_def)
  moreover have "- 1074 \<le> binade x - 52" using binade_ge [of x] by simp
  ultimately show ?thesis by (intro fl_exact)
qed

lemma is_double_fl [simp]: "is_double (fl x)"
  by (simp add: is_double_def)

lemma binade_abs [simp]: "binade \<bar>x\<bar> = binade x"
  by (simp add: binade_def)

lemma fl_half:
  assumes "2 powi (- 1021) \<le> \<bar>x\<bar>"
  shows "fl (x / 2) = fl x / 2"
proof -
  define L where "L = \<lfloor>log 2 \<bar>x\<bar>\<rfloor>"
  have pos: "0 < \<bar>x\<bar>" using assms by (rule less_le_trans [rotated]) simp
  have L: "2 powi L \<le> \<bar>x\<bar>" "\<bar>x\<bar> < 2 powi (L + 1)"
    using floor_log2 [OF pos] by (simp_all add: L_def)
  have "\<not> L + 1 \<le> - 1021"
  proof
    assume "L + 1 \<le> - 1021"
    then have "(2::real) powi (L + 1) \<le> 2 powi (- 1021)"
      by (intro power_int_increasing) simp_all
    with L(2) assms show False by linarith
  qed
  then have low: "- 1021 \<le> L" by simp
  then have bx: "binade x = L" by (simp add: binade_def L_def)
  have "(2::real) powi L = 2 powi (L - 1) * 2" "(2::real) powi (L + 1) = 2 powi (L - 1 + 1) * 2"
    using power_int_add_1 [of "2::real" "L - 1"] power_int_add_1 [of "2::real" "L"] by simp_all
  then have "2 powi (L - 1) \<le> \<bar>x / 2\<bar>" "\<bar>x / 2\<bar> < 2 powi (L - 1 + 1)"
    using L by simp_all
  then have "binade \<bar>x / 2\<bar> = L - 1"
    using low by (intro binade_eqI) simp_all
  then have bh: "binade (x / 2) = L - 1" by (simp only: binade_abs)
  have "ulp x = 2 powi (L - 1 - 52 + 1)" by (simp add: ulp_def bx)
  also have "\<dots> = 2 powi (L - 1 - 52) * 2" by (rule power_int_add_1) simp
  finally have u: "ulp (x / 2) = ulp x / 2" by (simp add: ulp_def bh)
  have "x \<noteq> 0" using pos by simp
  then show ?thesis by (simp add: fl_def u)
qed


lemma rne_less_iff_even:
  assumes "even N"
  shows "(rne q < N) = (q < of_int N - 1/2)"
proof
  assume "q < of_int N - 1/2"
  moreover have "of_int (rne q) - q \<le> 1/2" using rne_error [of q] by linarith
  ultimately have "real_of_int (rne q) < of_int N" by linarith
  then show "rne q < N" by simp
next
  assume less: "rne q < N"
  show "q < of_int N - 1/2"
  proof (rule ccontr)
    assume "\<not> q < of_int N - 1/2"
    then consider "of_int N - 1/2 < q" | "q = of_int N - 1/2" by linarith
    then show False
    proof cases
      case 1
      moreover have "q - of_int (rne q) \<le> 1/2" using rne_error [of q] by linarith
      ultimately have "real_of_int N - 1 < of_int (rne q)" by linarith
      then have "real_of_int (N - 1) < of_int (rne q)" by simp
      then have "N - 1 < rne q" by (simp only: of_int_less_iff)
      with less show False by simp
    next
      case 2
      have "of_int (N - 1) \<le> q" "q < of_int (N - 1) + 1" using 2 by simp_all
      then have f: "\<lfloor>q\<rfloor> = N - 1" by (rule floor_unique)
      have d: "q - of_int \<lfloor>q\<rfloor> = 1/2" using 2 f by simp
      have o: "odd \<lfloor>q\<rfloor>" using assms f by simp
      have "rne q = N" using d o f by (simp add: rne_def Let_def)
      with less show False by simp
    qed
  qed
qed

lemma fl_less_iff:
  assumes "2 powi e \<le> x" "x < 2 powi (e + 1)" "- 1022 \<le> e" "even N"
  shows "(fl x < of_int N * 2 powi (e - 52)) = (x < (of_int N - 1/2) * 2 powi (e - 52))"
proof -
  have pos: "0 < x" using assms(1) by (rule less_le_trans [rotated]) simp
  have b: "binade x = e" using assms(1-3) by (rule binade_eqI)
  define u :: real where "u = 2 powi (e - 52)"
  have u: "0 < u" "ulp x = u" by (simp_all add: u_def ulp_def b)
  have "(fl x < of_int N * u) = (real_of_int (rne (x / u)) < of_int N)"
    using pos u by (simp add: fl_def)
  also have "\<dots> = (rne (x / u) < N)" by (simp only: of_int_less_iff)
  also have "\<dots> = (x / u < of_int N - 1/2)" using assms(4) by (rule rne_less_iff_even)
  also have "\<dots> = (x < (of_int N - 1/2) * u)" using u by (simp add: field_simps)
  finally show ?thesis by (simp only: u_def)
qed

lemma fl_less_1_iff:
  assumes "0 \<le> x"
  shows "(fl x < 1) = (x < 1 - 1 / 2 ^ 54)"
proof -
  consider "x < 1/2" | "1/2 \<le> x" "x < 1" | "1 \<le> x" by linarith
  then show ?thesis
  proof cases
    case 1
    then have "fl x \<le> fl (1/2)" by (intro fl_mono) simp
    also have "fl (1/2) = 1/2" by (rule fl_exact [of _ 1 "- 1"]) simp_all
    finally show ?thesis using 1 by simp
  next
    case 2
    have "(fl x < of_int (2 ^ 53) * 2 powi (- 1 - 52)) =
        (x < (of_int (2 ^ 53) - 1/2) * 2 powi (- 1 - 52))"
      using 2 by (intro fl_less_iff) simp_all
    then show ?thesis by (simp add: power_int_minus field_simps)
  next
    case 3
    then have "fl 1 \<le> fl x" by (intro fl_mono)
    moreover have "fl 1 = 1" by (rule fl_exact [of _ 1 0]) simp_all
    ultimately show ?thesis using 3 by simp
  qed
qed

lemma fl_less_2_iff:
  assumes "0 \<le> x"
  shows "(fl x < 2) = (x < 2 - 1 / 2 ^ 53)"
proof -
  consider "x < 1" | "1 \<le> x" "x < 2" | "2 \<le> x" by linarith
  then show ?thesis
  proof cases
    case 1
    then have "fl x \<le> fl 1" by (intro fl_mono) simp
    also have "fl 1 = 1" by (rule fl_exact [of _ 1 0]) simp_all
    finally show ?thesis using 1 by simp
  next
    case 2
    have "(fl x < of_int (2 ^ 53) * 2 powi (0 - 52)) =
        (x < (of_int (2 ^ 53) - 1/2) * 2 powi (0 - 52))"
      using 2 by (intro fl_less_iff) simp_all
    then show ?thesis by (simp add: power_int_minus field_simps)
  next
    case 3
    then have "fl 2 \<le> fl x" by (intro fl_mono)
    moreover have "fl 2 = 2" by (rule fl_exact [of _ 1 1]) simp_all
    ultimately show ?thesis using 3 by simp
  qed
qed

lemma fl_less_3:
  assumes "0 \<le> x" "x < 3 - 1 / 2 ^ 52"
  shows "fl x < 3"
proof (cases "x < 2")
  case True
  then have "fl x \<le> fl 2" by (intro fl_mono) simp
  also have "fl 2 = 2" by (rule fl_exact [of _ 1 1]) simp_all
  finally show ?thesis by simp
next
  case False
  have "(fl x < of_int (3 * 2 ^ 51) * 2 powi (1 - 52)) =
      (x < (of_int (3 * 2 ^ 51) - 1/2) * 2 powi (1 - 52))"
    using False assms by (intro fl_less_iff) simp_all
  then show ?thesis using assms by (simp add: power_int_minus field_simps)
qed

lemma double_below_1:
  assumes "is_double r" "0 \<le> r" "r < 1"
  shows "r \<le> 1 - 1 / 2 ^ 53"
proof (cases "r < 1/2")
  case True
  then show ?thesis by simp
next
  case False
  then have b: "2 powi (- 1) \<le> r" "r < 2 powi (- 1 + 1)" using assms by simp_all
  have "binade r = - 1" using b by (rule binade_eqI) simp
  then have u: "ulp r = 1 / 2 ^ 53" by (simp add: ulp_def power_int_minus field_simps)
  define m where "m = rne (r / ulp r)"
  have "r \<noteq> 0" using False by simp
  then have r: "r = of_int m / 2 ^ 53"
    using assms(1) by (simp add: is_double_def fl_def m_def u)
  then have "real_of_int m < 2 ^ 53" using assms(3) by (simp add: field_simps)
  then have "real_of_int m < of_int (2 ^ 53)" by simp
  then have "m < 2 ^ 53" by (simp only: of_int_less_iff)
  then have "m \<le> 2 ^ 53 - 1" by simp
  then have "real_of_int m \<le> of_int (2 ^ 53 - 1)" by (simp only: of_int_le_iff)
  then show ?thesis unfolding r by (simp add: field_simps)
qed

section \<open>Facts about the random source\<close>

lemma valid_rng_stl: "valid_rng g \<Longrightarrow> valid_rng (stl g)"
  by (auto simp: valid_rng_def dest: stl_sset)

lemma valid_rng_sdrop: "valid_rng g \<Longrightarrow> valid_rng (sdrop n g)"
  by (induction n arbitrary: g) (simp_all add: valid_rng_stl)

lemma valid_rng_snth: "valid_rng g \<Longrightarrow> is_double (g !! n) \<and> 0 \<le> g !! n \<and> g !! n < 1"
  by (simp add: valid_rng_def)

lemma valid_rng_sconst: "valid_rng (sconst c) = (is_double c \<and> 0 \<le> c \<and> c < 1)"
  by (simp add: valid_rng_def)

text \<open>The parameters in terms of the ten values drawn.\<close>

lemma generateRandomObjectParams_snth:
  "generateRandomObjectParams g =
     (\<lparr>randomColor = fl (g !! 0 * 16777215),
       randomScale = fl (0.75 + fl (g !! 1 * 1)),
       randomRadius = fl (fl (0.75 + fl (g !! 1 * 1)) * 0.75),
       randomLength = fl (1 + fl (g !! 2 * 2)),
       randomX = fl (- 5 + fl (g !! 3 * 5)),
       randomY = fl (20 + fl (g !! 4 * 25)),
       randomZ = fl (- 5 + fl (g !! 5 * 5)),
       randomMass = fl (5 + fl (g !! 6 * fl (5 + fl (0.75 + fl (g !! 1 * 1))))),
       randomQuaternion =
         \<lparr>qx = fl (0 + fl (g !! 7 * 360)), qy = fl (0 + fl (g !! 8 * 360)),
          qz = fl (g !! 9 * 360), qw = 1\<rparr>\<rparr>,
      sdrop 10 g)"
  by (simp add: generateRandomObjectParams_def random8BitColor_def randomFloat_def
      Math_random_def Let_def eval_nat_numeral)

lemma doubles:
  "fl (1/2) = 1/2" "fl (7/8) = 7/8" "fl (13/8) = 13/8" "fl (53/8) = 53/8"
  "fl (371/64) = 371/64" "fl (691/64) = 691/64" "fl (5/4) = 5/4" "fl (3/4) = 3/4"
  "fl (7/4) = 7/4" "fl 1 = 1" "fl 5 = 5"
proof -
  show "fl (1/2) = 1/2" by (rule fl_exact [of _ 1 "- 1"]) simp_all
  show "fl (7/8) = 7/8" by (rule fl_exact [of _ 7 "- 3"]) simp_all
  show "fl (13/8) = 13/8" by (rule fl_exact [of _ 13 "- 3"]) simp_all
  show "fl (53/8) = 53/8" by (rule fl_exact [of _ 53 "- 3"]) simp_all
  show "fl (371/64) = 371/64" by (rule fl_exact [of _ 371 "- 6"]) simp_all
  show "fl (691/64) = 691/64" by (rule fl_exact [of _ 691 "- 6"]) simp_all
  show "fl (5/4) = 5/4" by (rule fl_exact [of _ 5 "- 2"]) simp_all
  show "fl (3/4) = 3/4" by (rule fl_exact [of _ 3 "- 2"]) simp_all
  show "fl (7/4) = 7/4" by (rule fl_exact [of _ 7 "- 2"]) simp_all
  show "fl 1 = 1" by (rule fl_exact [of _ 1 0]) simp_all
  show "fl 5 = 5" by (rule fl_exact [of _ 5 0]) simp_all
qed

lemma fl_bracket:
  assumes "a \<le> x" "x \<le> b" "fl a = a" "fl b = b"
  shows "a \<le> fl x \<and> fl x \<le> b"
  using fl_mono [OF assms(1)] fl_mono [OF assms(2)] assms(3,4) by simp

lemma more_doubles:
  "fl (9/16) = 9/16" "fl (21/16) = 21/16" "fl (9/32) = 9/32" "fl (21/32) = 21/32"
  "fl 2 = 2" "fl 3 = 3"
proof -
  show "fl (9/16) = 9/16" by (rule fl_exact [of _ 9 "- 4"]) simp_all
  show "fl (21/16) = 21/16" by (rule fl_exact [of _ 21 "- 4"]) simp_all
  show "fl (9/32) = 9/32" by (rule fl_exact [of _ 9 "- 5"]) simp_all
  show "fl (21/32) = 21/32" by (rule fl_exact [of _ 21 "- 5"]) simp_all
  show "fl 2 = 2" by (rule fl_exact [of _ 2 0]) simp_all
  show "fl 3 = 3" by (rule fl_exact [of _ 3 0]) simp_all
qed

text \<open>Scale, radius and mass of the parameters generated from valid draws.\<close>

lemma params_bounds:
  assumes "valid_rng g"
  shows "3/4 \<le> randomScale (fst (generateRandomObjectParams g))"
    and "randomScale (fst (generateRandomObjectParams g)) \<le> 7/4"
    and "randomRadius (fst (generateRandomObjectParams g)) =
           fl (randomScale (fst (generateRandomObjectParams g)) * 0.75)"
    and "9/16 \<le> randomRadius (fst (generateRandomObjectParams g))"
    and "randomRadius (fst (generateRandomObjectParams g)) \<le> 21/16"
    and "5 \<le> randomMass (fst (generateRandomObjectParams g))"
proof -
  note b = valid_rng_snth [OF assms]
  define sc where "sc = fl (0.75 + fl (g !! 1 * 1))"
  have r1: "0 \<le> fl (g !! 1 * 1) \<and> fl (g !! 1 * 1) \<le> 1"
    using b [of 1] by (intro fl_bracket) (simp_all add: doubles)
  then have sc: "3/4 \<le> sc \<and> sc \<le> 7/4"
    unfolding sc_def by (intro fl_bracket) (simp_all add: doubles)
  then have ra: "9/16 \<le> fl (sc * 0.75) \<and> fl (sc * 0.75) \<le> 21/16"
    by (intro fl_bracket) (simp_all add: more_doubles)
  have "0 \<le> fl (5 + sc)" using sc by (intro fl_nonneg) simp
  then have "0 \<le> g !! 6 * fl (5 + sc)" using b [of 6] by simp
  then have "0 \<le> fl (g !! 6 * fl (5 + sc))" by (rule fl_nonneg)
  then have "fl 5 \<le> fl (5 + fl (g !! 6 * fl (5 + sc)))" by (intro fl_mono) simp
  then have ma: "5 \<le> fl (5 + fl (g !! 6 * fl (5 + sc)))" by (simp add: doubles)
  show "3/4 \<le> randomScale (fst (generateRandomObjectParams g))"
    and "randomScale (fst (generateRandomObjectParams g)) \<le> 7/4"
    and "randomRadius (fst (generateRandomObjectParams g)) =
           fl (randomScale (fst (generateRandomObjectParams g)) * 0.75)"
    and "9/16 \<le> randomRadius (fst (generateRandomObjectParams g))"
    and "randomRadius (fst (generateRandomObjectParams g)) \<le> 21/16"
    and "5 \<le> randomMass (fst (generateRandomObjectParams g))"
    using sc ra ma by (simp_all add: generateRandomObjectParams_snth sc_def)
qed

section \<open>C1: the ranges of the random parameters\<close>

text \<open>
  Claim C1: every value that \<open>generateRandomObjectParams\<close> produces lies in its stated
  range, the mass in \<open>[5, 10.75)\<close>. The mass is \<open>randomFloat(5 + randomScale, 5)\<close>, and
  \<open>randomFloat(max, min)\<close>, which \<open>util.js\<close> documents as a float \<open>in the range [min,
  max]\<close>, returns \<open>min + Math.random() * max\<close>: its first argument is the width of the
  range and not its end. When \<open>Math.random\<close> returns 0.875 at every call, the scale is
  1.625 and the mass is \<open>5 + 0.875 * 6.625 = 10.796875\<close>: not below 10.75, and not
  within \<open>[5, 6.625]\<close>, the range of the documentation.
\<close>

theorem generateRandomObjectParams_mass_exceeds:
  "is_double (7/8) \<and> (0::real) \<le> 7/8 \<and> (7/8::real) < 1 \<and>
   randomScale (fst (generateRandomObjectParams (sconst (7/8)))) = 1.625 \<and>
   fst (randomFloat (fl (5 + 1.625)) 5 (sconst (7/8))) = 10.796875 \<and>
   randomMass (fst (generateRandomObjectParams (sconst (7/8)))) = 10.796875 \<and>
   \<not> randomMass (fst (generateRandomObjectParams (sconst (7/8)))) < 10.75 \<and>
   \<not> randomMass (fst (generateRandomObjectParams (sconst (7/8)))) \<le> fl (5 + 1.625)"
  by (simp add: generateRandomObjectParams_snth randomFloat_def Math_random_def
      is_double_def doubles)

section \<open>Facts about spawning\<close>

lemma randomInt_3:
  "randomInt 3 0 g = (\<lfloor>fl (shd g * 3)\<rfloor>, stl g)"
  by (simp add: randomInt_def Math_random_def)

text \<open>The integer drawn by \<open>randomInt(3)\<close>, in terms of the value \<open>r\<close> of \<open>Math.random\<close>.\<close>

lemma floor_fl_3:
  assumes "is_double r" "0 \<le> r" "r < 1"
  shows "\<lfloor>fl (r * 3)\<rfloor> \<in> {0, 1, 2}"
    and "(\<lfloor>fl (r * 3)\<rfloor> = 0) = (r * 3 < 1 - 1 / 2 ^ 54)"
    and "(\<lfloor>fl (r * 3)\<rfloor> = 1) = (1 - 1 / 2 ^ 54 \<le> r * 3 \<and> r * 3 < 2 - 1 / 2 ^ 53)"
    and "(\<lfloor>fl (r * 3)\<rfloor> = 2) = (2 - 1 / 2 ^ 53 \<le> r * 3)"
proof -
  define y where "y = fl (r * 3)"
  have x: "0 \<le> r * 3" using assms by simp
  have "r \<le> 1 - 1 / 2 ^ 53" using assms by (rule double_below_1)
  then have "r * 3 < 3 - 1 / 2 ^ 52" by simp
  with x have y3: "y < 3" unfolding y_def by (rule fl_less_3)
  have y0: "0 \<le> y" unfolding y_def using x by (rule fl_nonneg)
  have y1: "(y < 1) = (r * 3 < 1 - 1 / 2 ^ 54)" unfolding y_def using x by (rule fl_less_1_iff)
  have y2: "(y < 2) = (r * 3 < 2 - 1 / 2 ^ 53)" unfolding y_def using x by (rule fl_less_2_iff)
  have f0: "(\<lfloor>y\<rfloor> = 0) = (y < 1)" using y0 by (auto simp: floor_eq_iff)
  have f1: "(\<lfloor>y\<rfloor> = 1) = (1 \<le> y \<and> y < 2)" by (auto simp: floor_eq_iff)
  have f2: "(\<lfloor>y\<rfloor> = 2) = (2 \<le> y)" using y3 by (auto simp: floor_eq_iff)
  show "(\<lfloor>fl (r * 3)\<rfloor> = 0) = (r * 3 < 1 - 1 / 2 ^ 54)"
    using f0 y1 by (simp add: y_def)
  show "(\<lfloor>fl (r * 3)\<rfloor> = 1) = (1 - 1 / 2 ^ 54 \<le> r * 3 \<and> r * 3 < 2 - 1 / 2 ^ 53)"
    using f1 y1 y2 by (simp add: y_def not_less [symmetric])
  show "(\<lfloor>fl (r * 3)\<rfloor> = 2) = (2 - 1 / 2 ^ 53 \<le> r * 3)"
    using f2 y2 by (simp add: y_def not_less [symmetric])
  have "0 \<le> \<lfloor>y\<rfloor>" "\<lfloor>y\<rfloor> < 3" using y0 y3 by (simp_all add: floor_less_iff)
  then have "\<lfloor>y\<rfloor> = 0 \<or> \<lfloor>y\<rfloor> = 1 \<or> \<lfloor>y\<rfloor> = 2" by linarith
  then show "\<lfloor>fl (r * 3)\<rfloor> \<in> {0, 1, 2}" unfolding y_def by simp
qed

lemma create_mesh_body_fields:
  "create_mesh_body geom shp pos q ms nm col eng =
     (nextMeshId eng,
      eng\<lparr>meshes := (meshes eng)(nextMeshId eng \<mapsto>
              \<lparr>name = nm, geometry = geom, color = col, castShadow = True, receiveShadow = True,
               position = Position_set_Vector3 \<lparr>vx = vx pos, vy = vy pos, vz = vz pos\<rparr>,
               quaternion = \<lparr>qx = 0, qy = 0, qz = 0, qw = 1\<rparr>,
               physicsBody = nextPtr eng\<rparr>),
          nextMeshId := Suc (nextMeshId eng),
          scene := scene eng @ [nextMeshId eng],
          bodies := (bodies eng)(nextPtr eng \<mapsto>
              \<lparr>mass = ms,
               motionState = Some \<lparr>origin = \<lparr>vx = vx pos, vy = vy pos, vz = vz pos\<rparr>,
                                   rotation = \<lparr>qx = qx q, qy = qy q, qz = qz q, qw = qw q\<rparr>\<rparr>,
               collisionShape = shp, margin = 0.05, restitution = 0.75\<rparr>),
          nextPtr := Suc (nextPtr eng),
          physicsUniverse := physicsUniverse eng @ [nextPtr eng],
          rigidBodies := rigidBodies eng @ [nextMeshId eng]\<rparr>)"
  by (simp add: create_mesh_body_def scene_add_def addRigidBody_def Let_def)


lemma E_keypress_spawn:
  "E (keypress ''KeyS'' s) = spawnSphere (fst (generateRandomObjectParams (rng s))) (E s)"
  "E (keypress ''KeyB'' s) = spawnBox (fst (generateRandomObjectParams (rng s))) (E s)"
  "E (keypress ''KeyC'' s) = spawnCapsule (fst (generateRandomObjectParams (rng s))) (E s)"
  by (simp_all add: keypress_def dispatch_def split: prod.splits)

lemma E_keypress_Space:
  "E (keypress ''Space'' s) =
     (let rp = fst (generateRandomObjectParams (rng s)); w = \<lfloor>fl (rng s !! 10 * 3)\<rfloor>
      in if w = 0 then spawnCapsule rp (E s)
         else if w = 1 then spawnSphere rp (E s)
         else if w = 2 then spawnBox rp (E s)
         else E s)"
  by (simp add: keypress_def dispatch_def generateRandomObject_def generateRandomObjectParams_snth
      randomInt_3 Let_def)





lemma spawn_geometry:
  "map_option geometry (meshes (spawnSphere rp eng) (nextMeshId eng)) =
     Some (SphereGeometry (randomRadius rp) 32 16)"
  "map_option geometry (meshes (spawnBox rp eng) (nextMeshId eng)) =
     Some (BoxGeometry (randomScale rp) (randomScale rp) (randomScale rp))"
  "map_option geometry (meshes (spawnCapsule rp eng) (nextMeshId eng)) =
     Some (CapsuleGeometry (fl (randomRadius rp / 2)) (randomLength rp))"
  by (simp_all add: spawnSphere_def spawnBox_def spawnCapsule_def createSphere_def
      createBox_def createCapsule_def create_mesh_body_fields)

lemma spawn_shape:
  "map_option collisionShape (bodies (spawnSphere rp eng) (nextPtr eng)) =
     Some (btSphereShape (randomRadius rp))"
  "map_option collisionShape (bodies (spawnCapsule rp eng) (nextPtr eng)) =
     Some (btCapsuleShape (fl (randomRadius rp / 2)) (randomLength rp))"
  by (simp_all add: spawnSphere_def spawnBox_def spawnCapsule_def createSphere_def
      createBox_def createCapsule_def create_mesh_body_fields)


lemma createBox_fields:
  "createBox sc pos q ms nm col eng =
    (Some (nextMeshId eng),
     snd (create_mesh_body
       (case sc of Scale_number n \<Rightarrow> BoxGeometry n n n | Scale_object v \<Rightarrow> BoxGeometry (vx v) (vy v) (vz v))
       (case sc of Scale_number n \<Rightarrow> btBoxShape \<lparr>vx = fl (n * 0.5), vy = fl (n * 0.5), vz = fl (n * 0.5)\<rparr>
                 | Scale_object v \<Rightarrow> btBoxShape \<lparr>vx = fl (vx v * 0.5), vy = fl (vy v * 0.5),
                                                  vz = fl (vz v * 0.5)\<rparr>)
       pos q ms nm col eng))"
  by (cases sc) (simp_all add: createBox_def create_mesh_body_fields)

lemma render_new_Engine:
  "render fr new_Engine =
     new_Engine\<lparr>trace := [Clock_getDelta (delta fr), StepSimulation (delta fr) 10,
                           Renderer_render, RequestAnimationFrame]\<rparr>"
  by (simp add: render_def updatePhysics_def stepSimulation_def new_Engine_def Let_def)

lemma app_init_simps:
  "rng (app_init fr g) = g"
  "floorIsShowing (app_init fr g) = True"
  "intervalRef (app_init fr g) = None"
  "timers (app_init fr g) = []"
  "rigidBodies (E (app_init fr g)) = [0, 1, 2, 3, 4]"
  "scene (E (app_init fr g)) = [0, 1, 2, 3, 4]"
  "physicsUniverse (E (app_init fr g)) = [0, 1, 2, 3, 4]"
  "nextMeshId (E (app_init fr g)) = 5"
  "nextPtr (E (app_init fr g)) = 5"
  by (simp_all add: app_init_def render_new_Engine makeFloor_def createBox_fields
      create_mesh_body_fields Let_def) (simp_all add: new_Engine_def)

section \<open>C7: the key Space\<close>





section \<open>C8: the radius of a capsule\<close>

lemma create_results:
  "fst (createCapsule radius len pos q ms nm col eng) = None"
  "fst (createBox sc pos q ms nm col eng) = Some (nextMeshId eng)"
  "fst (createSphere radius pos q ms nm col eng) = Some (nextMeshId eng)"
  by (simp_all add: createCapsule_def createBox_fields createSphere_def create_mesh_body_fields)


lemma half_radius:
  assumes "valid_rng g"
  shows "fl (randomRadius (fst (generateRandomObjectParams g)) / 2) =
           randomRadius (fst (generateRandomObjectParams g)) / 2"
    and "randomRadius (fst (generateRandomObjectParams g)) / 2 =
           fl (randomScale (fst (generateRandomObjectParams g)) * 0.375)"
proof -
  define rp where "rp = fst (generateRandomObjectParams g)"
  note b = params_bounds [OF assms, folded rp_def]
  have s: "(2::real) powi (- 1021) \<le> 2 powi (- 1)" by (rule power_int_increasing) simp_all
  have 1: "2 powi (- 1021) \<le> \<bar>randomRadius rp\<bar>" using s b(4) by simp
  have 2: "2 powi (- 1021) \<le> \<bar>randomScale rp * 0.75\<bar>" using s b(1) by simp
  have "fl (randomRadius rp / 2) = fl (randomRadius rp) / 2" using 1 by (rule fl_half)
  also have "\<dots> = randomRadius rp / 2" by (simp add: b(3))
  finally show "fl (randomRadius rp / 2) = randomRadius rp / 2" .
  have "randomScale rp * 0.375 = randomScale rp * 0.75 / 2" by simp
  then have "fl (randomScale rp * 0.375) = fl (randomScale rp * 0.75 / 2)" by (rule arg_cong)
  also have "\<dots> = fl (randomScale rp * 0.75) / 2" using 2 by (rule fl_half)
  finally show "randomRadius rp / 2 = fl (randomScale rp * 0.375)" by (simp add: b(3))
qed

lemma draw_largest:
  "is_double (1 - 1 / 2 ^ 53)"
  "fl (7/4 - 1 / 2 ^ 53) = 7/4"
proof -
  have "fl (9007199254740991 / 2 ^ 53) = 9007199254740991 / 2 ^ 53"
    by (rule fl_exact [of _ 9007199254740991 "- 53"]) simp_all
  then show "is_double (1 - 1 / 2 ^ 53)" by (simp add: is_double_def)
  have "fl (7/4 - 1 / 2 ^ 53) \<le> fl (7/4)" by (rule fl_mono) simp
  then have le: "fl (7/4 - 1 / 2 ^ 53) \<le> 7/4" by (simp add: doubles)
  have "(fl (7/4 - 1 / 2 ^ 53) < of_int 7881299347898368 * 2 powi (0 - 52)) =
      ((7/4 - 1 / 2 ^ 53 :: real) < (of_int 7881299347898368 - 1/2) * 2 powi (0 - 52))"
    by (rule fl_less_iff) simp_all
  then have "\<not> fl (7/4 - 1 / 2 ^ 53) < 7/4" by simp
  with le show "fl (7/4 - 1 / 2 ^ 53) = 7/4" by simp
qed

text \<open>
  Claim C8: a capsule, spawned by the key C or by the random choice, is built with half the
  generated radius, which is the double nearest to 0.375 times the scale, a value in
  \<open>[0.28125, 0.65625]\<close>, while a sphere is built with the whole radius, the double nearest
  to 0.75 times the scale; and \<open>createCapsule\<close> returns nothing, while \<open>createBox\<close> and
  \<open>createSphere\<close> return the mesh they made.
\<close>

theorem capsule_half_radius:
  assumes "valid_rng (rng s)"
  shows "(let rp = fst (generateRandomObjectParams (rng s));
              which = fst (randomInt 3 0 (snd (generateRandomObjectParams (rng s))));
              obj = nextMeshId (E s);
              body = nextPtr (E s);
              half = randomRadius rp / 2;
              capsule = CapsuleGeometry half (randomLength rp);
              sphere = SphereGeometry (randomRadius rp) 32 16
          in randomRadius rp = fl (randomScale rp * 0.75) \<and>
             half = fl (randomScale rp * 0.375) \<and>
             0.28125 \<le> half \<and> half \<le> 0.65625 \<and>
             map_option geometry (meshes (E (keypress ''KeyC'' s)) obj) = Some capsule \<and>
             map_option collisionShape (bodies (E (keypress ''KeyC'' s)) body) =
               Some (btCapsuleShape half (randomLength rp)) \<and>
             (which = 0 \<longrightarrow>
                map_option geometry (meshes (E (keypress ''Space'' s)) obj) = Some capsule) \<and>
             map_option geometry (meshes (E (keypress ''KeyS'' s)) obj) = Some sphere \<and>
             map_option collisionShape (bodies (E (keypress ''KeyS'' s)) body) =
               Some (btSphereShape (randomRadius rp)) \<and>
             (which = 1 \<longrightarrow>
                map_option geometry (meshes (E (keypress ''Space'' s)) obj) = Some sphere) \<and>
             (\<forall>radius len pos q ms nm col eng.
                fst (createCapsule radius len pos q ms nm col eng) = None \<and>
                fst (createSphere radius pos q ms nm col eng) = Some (nextMeshId eng)) \<and>
             (\<forall>sc pos q ms nm col eng.
                fst (createBox sc pos q ms nm col eng) = Some (nextMeshId eng)))"
proof -
  define rp where "rp = fst (generateRandomObjectParams (rng s))"
  note b = params_bounds [OF assms, folded rp_def]
  note h = half_radius [OF assms, folded rp_def]
  have w: "fst (randomInt 3 0 (snd (generateRandomObjectParams (rng s)))) = \<lfloor>fl (rng s !! 10 * 3)\<rfloor>"
    by (simp add: generateRandomObjectParams_snth randomInt_3)
  have "9/32 \<le> randomRadius rp / 2 \<and> randomRadius rp / 2 \<le> 21/32" using b(4,5) by simp
  then have r: "0.28125 \<le> randomRadius rp / 2 \<and> randomRadius rp / 2 \<le> 0.65625" by simp
  show ?thesis
    unfolding Let_def rp_def [symmetric] w
    using r b(3) h(2)
    by (simp add: E_keypress_spawn E_keypress_Space spawn_geometry spawn_shape
        create_results h(1) rp_def [symmetric] Let_def del: map_option_eq_Some)
qed

theorem capsule_half_radius_witness:
  "valid_rng (rng (app_init \<lparr>delta = 0, motion = \<lambda>p. None\<rparr> (sconst (1/2)))) \<and>
   map_option geometry
     (meshes (E (keypress ''KeyC'' (app_init \<lparr>delta = 0, motion = \<lambda>p. None\<rparr> (sconst (1/2))))) 5)
     = Some (CapsuleGeometry 0.46875 2) \<and>
   map_option geometry
     (meshes (E (keypress ''KeyS'' (app_init \<lparr>delta = 0, motion = \<lambda>p. None\<rparr> (sconst (1/2))))) 5)
     = Some (SphereGeometry 0.9375 32 16)"
proof -
  let ?s = "app_init \<lparr>delta = 0, motion = \<lambda>p. None\<rparr> (sconst (1/2))"
  have v: "valid_rng (rng ?s)" by (simp add: app_init_simps valid_rng_sconst is_double_def doubles)
  have d: "fl (15/16) = 15/16" by (rule fl_exact [of _ 15 "- 4"]) simp_all
  note t = capsule_half_radius [OF v, unfolded Let_def]
  from t have "map_option geometry (meshes (E (keypress ''KeyC'' ?s)) (nextMeshId (E ?s))) =
      Some (CapsuleGeometry (randomRadius (fst (generateRandomObjectParams (rng ?s))) / 2)
             (randomLength (fst (generateRandomObjectParams (rng ?s)))))"
    by blast
  moreover from t have "map_option geometry (meshes (E (keypress ''KeyS'' ?s)) (nextMeshId (E ?s))) =
      Some (SphereGeometry (randomRadius (fst (generateRandomObjectParams (rng ?s)))) 32 16)"
    by blast
  ultimately show ?thesis using v
    by (simp add: app_init_simps generateRandomObjectParams_snth doubles more_doubles d
        del: map_option_eq_Some)
qed

text \<open>
  The upper end 0.65625 is reached: when \<open>Math.random\<close> returns its largest value,
  \<open>1 - 2\<^sup>-\<^sup>5\<^sup>3\<close>, the scale \<open>0.75 + r\<close> is rounded to 1.75 and the capsule made by the key C
  has the radius 0.65625.
\<close>

theorem capsule_half_radius_counterexample:
  "valid_rng (sconst (1 - 1 / 2 ^ 53)) \<and>
   randomScale (fst (generateRandomObjectParams (sconst (1 - 1 / 2 ^ 53)))) = 1.75 \<and>
   randomRadius (fst (generateRandomObjectParams (sconst (1 - 1 / 2 ^ 53)))) / 2 = 0.65625 \<and>
   \<not> randomRadius (fst (generateRandomObjectParams (sconst (1 - 1 / 2 ^ 53)))) / 2 < 0.65625 \<and>
   map_option geometry
     (meshes (E (keypress ''KeyC''
        (app_init \<lparr>delta = 0, motion = \<lambda>p. None\<rparr> (sconst (1 - 1 / 2 ^ 53))))) 5)
     = Some (CapsuleGeometry 0.65625
         (randomLength (fst (generateRandomObjectParams (sconst (1 - 1 / 2 ^ 53))))))"
proof -
  let ?g = "sconst (1 - 1 / 2 ^ 53 :: real)"
  let ?s = "app_init \<lparr>delta = 0, motion = \<lambda>p. None\<rparr> ?g"
  have v: "valid_rng ?g" using draw_largest(1) by (simp add: valid_rng_sconst)
  have r: "fl (9007199254740991 / 9007199254740992) = 9007199254740991 / 9007199254740992"
    by (rule fl_exact [of _ 9007199254740991 "- 53"]) simp_all
  have scale: "randomScale (fst (generateRandomObjectParams ?g)) = 7/4"
    using draw_largest(2) by (simp add: generateRandomObjectParams_snth r)
  have "randomRadius (fst (generateRandomObjectParams ?g)) =
      fl (randomScale (fst (generateRandomObjectParams ?g)) * 0.75)"
    using v by (rule params_bounds(3))
  also have "\<dots> = fl (7/4 * 0.75)" by (simp only: scale)
  also have "\<dots> = 21/16" by (simp add: more_doubles)
  finally have radius: "randomRadius (fst (generateRandomObjectParams ?g)) = 21/16" .
  have "fl (randomRadius (fst (generateRandomObjectParams ?g)) / 2) = fl (21/16 / 2)"
    by (simp only: radius)
  also have "\<dots> = 21/32" by (simp add: more_doubles)
  finally have half: "fl (randomRadius (fst (generateRandomObjectParams ?g)) / 2) = 21/32" .
  have "map_option geometry (meshes (spawnCapsule (fst (generateRandomObjectParams ?g)) (E ?s))
        (nextMeshId (E ?s))) =
      Some (CapsuleGeometry (fl (randomRadius (fst (generateRandomObjectParams ?g)) / 2))
        (randomLength (fst (generateRandomObjectParams ?g))))"
    by (rule spawn_geometry(3))
  then have "map_option geometry (meshes (spawnCapsule (fst (generateRandomObjectParams ?g)) (E ?s))
        (nextMeshId (E ?s))) =
      Some (CapsuleGeometry (21/32) (randomLength (fst (generateRandomObjectParams ?g))))"
    by (simp only: half)
  then have "map_option geometry (meshes (E (keypress ''KeyC'' ?s)) 5) =
      Some (CapsuleGeometry (21/32) (randomLength (fst (generateRandomObjectParams ?g))))"
    by (simp add: E_keypress_spawn app_init_simps del: map_option_eq_Some)
  moreover have "randomRadius (fst (generateRandomObjectParams ?g)) / 2 = 21/32"
    unfolding radius by simp
  moreover have "randomScale (fst (generateRandomObjectParams ?g)) = 1.75"
    unfolding scale by simp
  ultimately show ?thesis using v by (simp del: map_option_eq_Some)
qed

section \<open>Facts about the removal loops\<close>

lemma some_filter:
  "concat (map (case_option [] (\<lambda>r. [r]) \<circ> (\<lambda>r. if P r then None else Some r)) xs) =
     filter (\<lambda>r. \<not> P r) xs"
  by (induction xs) simp_all

lemma fold_removeStep:
  "fold (removeStep t) (enumerate (length pre) xs) (eng, pre @ map Some xs) =
     (eng\<lparr>scene := fold remove1 (filter (selected t eng) xs) (scene eng),
          physicsUniverse :=
            fold remove1 (map (body_of eng) (filter (selected t eng) xs)) (physicsUniverse eng)\<rparr>,
      pre @ map (\<lambda>r. if selected t eng r then None else Some r) xs)"
proof (induction xs arbitrary: pre eng)
  case Nil
  show ?case by simp
next
  case (Cons r xs)
  show ?case
  proof (cases "selected t eng r")
    case True
    then obtain m where m: "meshes eng r = Some m" "t (name m)"
      by (auto simp: selected_def split: option.splits)
    let ?eng = "removeCollisionObject (eB (physicsBody m)) (scene_remove r eng)"
    have sel: "selected t ?eng = selected t eng" "body_of ?eng = body_of eng"
      by (auto simp: selected_def body_of_def removeCollisionObject_def scene_remove_def fun_eq_iff)
    have "fold (removeStep t) (enumerate (length pre) (r # xs)) (eng, pre @ map Some (r # xs)) =
        fold (removeStep t) (enumerate (length (pre @ [None])) xs) (?eng, (pre @ [None]) @ map Some xs)"
      by (simp add: removeStep_def m list_update_append)
    also note Cons.IH [of "pre @ [None]" ?eng]
    finally show ?thesis
      using True m
      by (simp add: sel) (simp add: removeCollisionObject_def scene_remove_def eB_def body_of_def)
  next
    case False
    have "fold (removeStep t) (enumerate (length pre) (r # xs)) (eng, pre @ map Some (r # xs)) =
        fold (removeStep t) (enumerate (length (pre @ [Some r])) xs) (eng, (pre @ [Some r]) @ map Some xs)"
      using False by (simp add: removeStep_def selected_def split: option.splits)
    also note Cons.IH [of "pre @ [Some r]" eng]
    finally show ?thesis using False by simp
  qed
qed

lemma removeBodies_eq:
  "removeBodies t eng =
     eng\<lparr>scene := fold remove1 (filter (selected t eng) (rigidBodies eng)) (scene eng),
         physicsUniverse :=
           fold remove1 (map (body_of eng) (filter (selected t eng) (rigidBodies eng)))
             (physicsUniverse eng),
         rigidBodies := filter (\<lambda>r. \<not> selected t eng r) (rigidBodies eng)\<rparr>"
  using fold_removeStep [of t "[]" "rigidBodies eng" eng]
  by (simp add: removeBodies_def some_filter)

lemma removeBodies_frame:
  "meshes (removeBodies t eng) = meshes eng"
  "bodies (removeBodies t eng) = bodies eng"
  "nextMeshId (removeBodies t eng) = nextMeshId eng"
  "nextPtr (removeBodies t eng) = nextPtr eng"
  "trace (removeBodies t eng) = trace eng"
  "renderCallback (removeBodies t eng) = renderCallback eng"
  "rigidBodies (removeBodies t eng) = filter (\<lambda>r. \<not> selected t eng r) (rigidBodies eng)"
  by (simp_all add: removeBodies_eq)


section \<open>C10: every key draws a set of parameters\<close>

text \<open>
  Claim C10: whatever the key, the listener first draws one full set of parameters, ten
  values of \<open>Math.random\<close>, and only then looks at the key: the keys that spawn nothing
  take these ten values too. After the listener the state of \<open>Math.random\<close> has advanced
  by the ten values alone for the keys R and G, for the key F when the floor is showing and
  for the keys without an action, and no object is created; it has advanced by 12 more
  for each mesh made, and by one more for the choice of the key Space.
\<close>

theorem keypress_consumes_params:
  assumes "valid_rng (rng s)"
  shows "snd (generateRandomObjectParams (rng s)) = sdrop 10 (rng s) \<and>
         keypress code s =
           dispatch code (fst (generateRandomObjectParams (rng s))) (s\<lparr>rng := sdrop 10 (rng s)\<rparr>) \<and>
         rng (keypress code s) =
           sdrop (10 + (if code \<in> {''KeyS'', ''KeyB'', ''KeyC''} then 12
                        else if code = ''Space'' then 13
                        else if code = ''KeyF'' \<and> \<not> floorIsShowing s then 60
                        else 0)) (rng s) \<and>
         (code \<notin> {''KeyS'', ''KeyB'', ''KeyC'', ''Space''} \<and> (code = ''KeyF'' \<longrightarrow> floorIsShowing s) \<longrightarrow>
            rng (keypress code s) = sdrop 10 (rng s) \<and>
            nextMeshId (E (keypress code s)) = nextMeshId (E s) \<and>
            meshes (E (keypress code s)) = meshes (E s) \<and>
            length (rigidBodies (E (keypress code s))) \<le> length (rigidBodies (E s)))"
proof -
  have r: "is_double (rng s !! 10)" "0 \<le> rng s !! 10" "rng s !! 10 < 1"
    using valid_rng_snth [OF assms, of 10] by simp_all
  have c: "\<lfloor>fl (rng s !! 10 * 3)\<rfloor> = 0 \<or> \<lfloor>fl (rng s !! 10 * 3)\<rfloor> = 1 \<or> \<lfloor>fl (rng s !! 10 * 3)\<rfloor> = 2"
    using floor_fl_3(1) [OF r] by simp
  have k: "keypress code s =
      dispatch code (fst (generateRandomObjectParams (rng s))) (s\<lparr>rng := sdrop 10 (rng s)\<rparr>)"
    by (simp add: keypress_def generateRandomObjectParams_snth)
  have sp: "rng (generateRandomObject rp (s\<lparr>rng := sdrop 10 (rng s)\<rparr>)) = sdrop 23 (rng s)" for rp
    using c by (auto simp: generateRandomObject_def randomInt_3 made_def Let_def)
  show ?thesis
    unfolding k
    by (simp add: generateRandomObjectParams_snth dispatch_def made_def sp
        removeBodies_frame)
qed

theorem keypress_consumes_params_witness:
  "valid_rng (rng (app_init \<lparr>delta = 0, motion = \<lambda>p. None\<rparr> (sconst (1/2)))) \<and>
   rng (keypress ''KeyR'' (app_init \<lparr>delta = 0, motion = \<lambda>p. None\<rparr> (sconst (1/2)))) =
     sdrop 10 (sconst (1/2)) \<and>
   nextMeshId (E (keypress ''KeyR'' (app_init \<lparr>delta = 0, motion = \<lambda>p. None\<rparr> (sconst (1/2))))) = 5 \<and>
   rng (keypress ''KeyB'' (app_init \<lparr>delta = 0, motion = \<lambda>p. None\<rparr> (sconst (1/2)))) =
     sdrop 22 (sconst (1/2))"
proof -
  let ?s = "app_init \<lparr>delta = 0, motion = \<lambda>p. None\<rparr> (sconst (1/2))"
  have v: "valid_rng (rng ?s)" by (simp add: app_init_simps valid_rng_sconst is_double_def doubles)
  note r = keypress_consumes_params [OF v, of "''KeyR''", THEN conjunct2, THEN conjunct2,
      THEN conjunct2]
  note b = keypress_consumes_params [OF v, of "''KeyB''", THEN conjunct2, THEN conjunct2,
      THEN conjunct1]
  from r have "rng (keypress ''KeyR'' ?s) = sdrop 10 (sconst (1/2))"
    and "nextMeshId (E (keypress ''KeyR'' ?s)) = 5"
    by (simp_all add: app_init_simps)
  moreover from b have "rng (keypress ''KeyB'' ?s) = sdrop 22 (sconst (1/2))"
    by (simp add: app_init_simps)
  ultimately show ?thesis using v by simp
qed

section \<open>Facts about the frame\<close>

lemma quat_eta: "\<lparr>qx = qx q, qy = qy q, qz = qz q, qw = qw q\<rparr> = (q::quat)"
  by (cases q) simp

lemma vec3_eta: "\<lparr>vx = vx v, vy = vy v, vz = vz v\<rparr> = (v::vec3)"
  by (cases v) simp

lemma syncObject_eq:
  "syncObject r eng =
     (case transform_of eng r of
        None \<Rightarrow> eng
      | Some t \<Rightarrow>
          eng\<lparr>tmpTransformation := t,
              trace := trace eng @ sync_effects eng r,
              meshes := (meshes eng)(r \<mapsto> (the (meshes eng r))
                \<lparr>position := Position_set (vx (origin t)) (vy (origin t)) (vz (origin t)),
                 quaternion := rotation t\<rparr>)\<rparr>)"
  by (auto simp: syncObject_def transform_of_def sync_effects_def body_of_def Let_def quat_eta
      split: option.splits)

lemma syncObject_frame:
  "bodies (syncObject r eng) = bodies eng"
  "rigidBodies (syncObject r eng) = rigidBodies eng"
  "scene (syncObject r eng) = scene eng"
  "physicsUniverse (syncObject r eng) = physicsUniverse eng"
  "nextMeshId (syncObject r eng) = nextMeshId eng"
  "nextPtr (syncObject r eng) = nextPtr eng"
  "renderCallback (syncObject r eng) = renderCallback eng"
  by (simp_all add: syncObject_eq split: option.splits)

lemma syncObject_transform_of:
  "transform_of (syncObject r eng) = transform_of eng"
  by (auto simp: fun_eq_iff syncObject_eq transform_of_def split: option.splits)

lemma syncObject_body_of:
  "body_of (syncObject r eng) = body_of eng"
  by (auto simp: fun_eq_iff syncObject_eq transform_of_def body_of_def split: option.splits)

lemma syncObject_sync_effects:
  "sync_effects (syncObject r eng) = sync_effects eng"
  by (simp add: fun_eq_iff sync_effects_def syncObject_transform_of syncObject_body_of
      split: option.splits)

lemma syncObject_mesh_name:
  "mesh_name (syncObject r eng) = mesh_name eng"
  by (auto simp: fun_eq_iff syncObject_eq transform_of_def mesh_name_def split: option.splits)

lemma syncObject_meshes_other:
  "r' \<noteq> r \<Longrightarrow> meshes (syncObject r eng) r' = meshes eng r'"
  by (simp add: syncObject_eq split: option.splits)

lemma syncObject_meshes_None:
  "transform_of eng r = None \<Longrightarrow> meshes (syncObject r eng) = meshes eng"
  by (simp add: syncObject_eq)

lemma fold_syncObject_frame:
  "bodies (fold syncObject rs eng) = bodies eng"
  "rigidBodies (fold syncObject rs eng) = rigidBodies eng"
  "scene (fold syncObject rs eng) = scene eng"
  "physicsUniverse (fold syncObject rs eng) = physicsUniverse eng"
  "nextMeshId (fold syncObject rs eng) = nextMeshId eng"
  "nextPtr (fold syncObject rs eng) = nextPtr eng"
  "renderCallback (fold syncObject rs eng) = renderCallback eng"
  "transform_of (fold syncObject rs eng) = transform_of eng"
  "mesh_name (fold syncObject rs eng) = mesh_name eng"
  "body_of (fold syncObject rs eng) = body_of eng"
  by (induction rs arbitrary: eng)
     (simp_all add: syncObject_frame syncObject_transform_of syncObject_mesh_name syncObject_body_of)

lemma fold_syncObject_trace:
  "trace (fold syncObject rs eng) = trace eng @ concat (map (sync_effects eng) rs)"
proof (induction rs arbitrary: eng)
  case Nil
  show ?case by simp
next
  case (Cons r rs)
  have "trace (syncObject r eng) = trace eng @ sync_effects eng r"
    by (simp add: syncObject_eq sync_effects_def split: option.splits)
  then show ?case by (simp add: Cons.IH syncObject_sync_effects)
qed

lemma fold_syncObject_skipped:
  "transform_of eng r = None \<Longrightarrow> meshes (fold syncObject rs eng) r = meshes eng r"
proof (induction rs arbitrary: eng)
  case Nil
  show ?case by simp
next
  case (Cons r' rs)
  have "meshes (syncObject r' eng) r = meshes eng r"
    using Cons.prems by (cases "r' = r") (simp_all add: syncObject_meshes_other syncObject_meshes_None)
  then show ?case using Cons by (simp add: syncObject_transform_of)
qed

lemma fold_syncObject_stable:
  assumes "meshes eng r = Some m" "transform_of eng r = Some t"
    "position m = Position_set (vx (origin t)) (vy (origin t)) (vz (origin t))"
    "quaternion m = rotation t"
  shows "meshes (fold syncObject rs eng) r = Some m"
  using assms
proof (induction rs arbitrary: eng)
  case Nil
  then show ?case by simp
next
  case (Cons r' rs)
  have "meshes (syncObject r' eng) r = Some m"
  proof (cases "r' = r")
    case True
    then show ?thesis using Cons.prems by (simp add: syncObject_eq)
  next
    case False
    then show ?thesis using Cons.prems by (simp add: syncObject_meshes_other)
  qed
  then show ?case using Cons by (simp add: syncObject_transform_of)
qed

lemma fold_syncObject_synced:
  assumes "r \<in> set rs" "meshes eng r = Some m" "transform_of eng r = Some t"
  shows "meshes (fold syncObject rs eng) r =
     Some (m\<lparr>position := Position_set (vx (origin t)) (vy (origin t)) (vz (origin t)),
             quaternion := rotation t\<rparr>)"
  using assms
proof (induction rs arbitrary: eng m)
  case Nil
  then show ?case by simp
next
  case (Cons r' rs)
  show ?case
  proof (cases "r' = r")
    case True
    have "meshes (syncObject r eng) r =
        Some (m\<lparr>position := Position_set (vx (origin t)) (vy (origin t)) (vz (origin t)),
                quaternion := rotation t\<rparr>)"
      using Cons.prems by (simp add: syncObject_eq)
    then have "meshes (fold syncObject rs (syncObject r eng)) r =
        Some (m\<lparr>position := Position_set (vx (origin t)) (vy (origin t)) (vz (origin t)),
                quaternion := rotation t\<rparr>)"
      using Cons.prems by (intro fold_syncObject_stable [where t = t]) (simp_all add: syncObject_transform_of)
    then show ?thesis using True by simp
  next
    case False
    then have "r \<in> set rs" using Cons.prems by simp
    moreover have "meshes (syncObject r' eng) r = Some m"
      using False Cons.prems by (simp add: syncObject_meshes_other)
    ultimately show ?thesis using Cons.IH [of "syncObject r' eng" m] Cons.prems
      by (simp add: syncObject_transform_of)
  qed
qed


lemma transform_of_cong:
  "meshes a = meshes b \<Longrightarrow> bodies a = bodies b \<Longrightarrow> transform_of a = transform_of b"
  by (simp add: transform_of_def fun_eq_iff cong: option.case_cong)

lemma body_of_cong: "meshes a = meshes b \<Longrightarrow> body_of a = body_of b"
  by (simp add: body_of_def fun_eq_iff)

lemma mesh_name_cong: "meshes a = meshes b \<Longrightarrow> mesh_name a = mesh_name b"
  by (simp add: mesh_name_def fun_eq_iff)

lemma sync_effects_eqI:
  "transform_of a = transform_of b \<Longrightarrow> body_of a = body_of b \<Longrightarrow> sync_effects a = sync_effects b"
  by (simp add: sync_effects_def fun_eq_iff cong: option.case_cong)

lemma sync_effects_cong:
  assumes "meshes a = meshes b" "bodies a = bodies b"
  shows "sync_effects a = sync_effects b"
  by (rule sync_effects_eqI)
     (simp_all add: transform_of_cong [OF assms] body_of_cong [OF assms(1)])

lemma stepSimulation_frame:
  "meshes (stepSimulation mo dt n eng) = meshes eng"
  "rigidBodies (stepSimulation mo dt n eng) = rigidBodies eng"
  "scene (stepSimulation mo dt n eng) = scene eng"
  "physicsUniverse (stepSimulation mo dt n eng) = physicsUniverse eng"
  "nextMeshId (stepSimulation mo dt n eng) = nextMeshId eng"
  "nextPtr (stepSimulation mo dt n eng) = nextPtr eng"
  "renderCallback (stepSimulation mo dt n eng) = renderCallback eng"
  "trace (stepSimulation mo dt n eng) = trace eng @ [StepSimulation dt n]"
  "mesh_name (stepSimulation mo dt n eng) = mesh_name eng"
  "body_of (stepSimulation mo dt n eng) = body_of eng"
  by (simp_all add: stepSimulation_def mesh_name_def body_of_def fun_eq_iff)

lemma updatePhysics_eq:
  "updatePhysics mo dt eng = fold syncObject (rigidBodies eng) (stepSimulation mo dt 10 eng)"
  by (simp add: updatePhysics_def Let_def stepSimulation_frame)

lemma updatePhysics_frame:
  "bodies (updatePhysics mo dt eng) = bodies (stepSimulation mo dt 10 eng)"
  "rigidBodies (updatePhysics mo dt eng) = rigidBodies eng"
  "scene (updatePhysics mo dt eng) = scene eng"
  "physicsUniverse (updatePhysics mo dt eng) = physicsUniverse eng"
  "nextMeshId (updatePhysics mo dt eng) = nextMeshId eng"
  "nextPtr (updatePhysics mo dt eng) = nextPtr eng"
  "renderCallback (updatePhysics mo dt eng) = renderCallback eng"
  "transform_of (updatePhysics mo dt eng) = transform_of (stepSimulation mo dt 10 eng)"
  "mesh_name (updatePhysics mo dt eng) = mesh_name eng"
  "body_of (updatePhysics mo dt eng) = body_of eng"
  by (simp_all add: updatePhysics_eq fold_syncObject_frame stepSimulation_frame)

lemma updatePhysics_trace:
  "trace (updatePhysics mo dt eng) =
     trace eng @ [StepSimulation dt 10] @
     concat (map (sync_effects (stepSimulation mo dt 10 eng)) (rigidBodies eng))"
  by (simp add: updatePhysics_eq fold_syncObject_trace stepSimulation_frame)

lemma render_eq:
  "render fr eng =
     (updatePhysics (motion fr) (delta fr) (eng\<lparr>trace := trace eng @ [Clock_getDelta (delta fr)]\<rparr>))
       \<lparr>trace := trace eng @ [Clock_getDelta (delta fr), StepSimulation (delta fr) 10] @
          concat (map (sync_effects (stepSimulation (motion fr) (delta fr) 10 eng)) (rigidBodies eng)) @
          [Renderer_render] @
          (case renderCallback eng of None \<Rightarrow> [] | Some cb \<Rightarrow> [Call_renderCallback []]) @
          [RequestAnimationFrame]\<rparr>"
proof -
  let ?eng0 = "eng\<lparr>trace := trace eng @ [Clock_getDelta (delta fr)]\<rparr>"
  have "sync_effects (stepSimulation (motion fr) (delta fr) 10 ?eng0) =
      sync_effects (stepSimulation (motion fr) (delta fr) 10 eng)"
    by (rule sync_effects_cong) (simp_all add: stepSimulation_def cong: if_cong)
  then show ?thesis
    by (cases "renderCallback eng")
       (simp_all add: render_def Let_def call_renderCallback_def updatePhysics_frame
          updatePhysics_trace)
qed

lemma fold_syncObject_other:
  "r \<notin> set rs \<Longrightarrow> meshes (fold syncObject rs eng) r = meshes eng r"
  by (induction rs arbitrary: eng) (auto simp: syncObject_meshes_other)

lemma fold_syncObject_meshes:
  "meshes (fold syncObject rs eng) r =
     (if r \<in> set rs
      then (case transform_of eng r of
              None \<Rightarrow> meshes eng r
            | Some t \<Rightarrow> map_option (\<lambda>m. m\<lparr>position := Position_set (vx (origin t)) (vy (origin t)) (vz (origin t)),
                                           quaternion := rotation t\<rparr>) (meshes eng r))
      else meshes eng r)"
proof (cases "r \<in> set rs")
  case False
  then show ?thesis by (simp add: fold_syncObject_other)
next
  case True
  show ?thesis
  proof (cases "transform_of eng r")
    case None
    then show ?thesis using True by (simp add: fold_syncObject_skipped)
  next
    case (Some t)
    then obtain m where "meshes eng r = Some m"
      by (auto simp: transform_of_def split: option.splits)
    then show ?thesis using True Some by (simp add: fold_syncObject_synced)
  qed
qed

lemma updatePhysics_meshes:
  "meshes (updatePhysics mo dt eng) r =
     (if r \<in> set (rigidBodies eng)
      then (case transform_of (stepSimulation mo dt 10 eng) r of
              None \<Rightarrow> meshes eng r
            | Some t \<Rightarrow> map_option (\<lambda>m. m\<lparr>position := Position_set (vx (origin t)) (vy (origin t)) (vz (origin t)),
                                           quaternion := rotation t\<rparr>) (meshes eng r))
      else meshes eng r)"
  by (simp add: updatePhysics_eq fold_syncObject_meshes stepSimulation_frame
      cong: option.case_cong)

lemma updatePhysics_trace_irrelevant:
  "meshes (updatePhysics mo dt (eng\<lparr>trace := tr\<rparr>)) = meshes (updatePhysics mo dt eng)"
proof -
  have "transform_of (stepSimulation mo dt 10 (eng\<lparr>trace := tr\<rparr>)) =
      transform_of (stepSimulation mo dt 10 eng)"
    by (rule transform_of_cong) (simp_all add: stepSimulation_def cong: if_cong)
  then show ?thesis by (simp add: fun_eq_iff updatePhysics_meshes cong: option.case_cong)
qed

lemma render_frame:
  "meshes (render fr eng) = meshes (updatePhysics (motion fr) (delta fr) eng)"
  "bodies (render fr eng) = bodies (stepSimulation (motion fr) (delta fr) 10 eng)"
  "rigidBodies (render fr eng) = rigidBodies eng"
  "scene (render fr eng) = scene eng"
  "physicsUniverse (render fr eng) = physicsUniverse eng"
  "nextMeshId (render fr eng) = nextMeshId eng"
  "nextPtr (render fr eng) = nextPtr eng"
  "renderCallback (render fr eng) = renderCallback eng"
  by (simp_all add: render_eq updatePhysics_frame updatePhysics_trace_irrelevant)
     (simp add: stepSimulation_def cong: if_cong)

lemma render_observations:
  "transform_of (render fr eng) = transform_of (stepSimulation (motion fr) (delta fr) 10 eng)"
  "mesh_name (render fr eng) = mesh_name eng"
  "body_of (render fr eng) = body_of eng"
proof -
  show "transform_of (render fr eng) = transform_of (stepSimulation (motion fr) (delta fr) 10 eng)"
    using updatePhysics_frame(8) [of "motion fr" "delta fr" eng]
      transform_of_cong [of "render fr eng" "updatePhysics (motion fr) (delta fr) eng"]
    by (simp add: render_frame updatePhysics_frame)
  show "mesh_name (render fr eng) = mesh_name eng"
    using mesh_name_cong [of "render fr eng" "updatePhysics (motion fr) (delta fr) eng"]
    by (simp add: render_frame updatePhysics_frame)
  show "body_of (render fr eng) = body_of eng"
    using body_of_cong [of "render fr eng" "updatePhysics (motion fr) (delta fr) eng"]
    by (simp add: render_frame updatePhysics_frame)
qed


text \<open>The state after the key B was pressed once: the five panels of the floor and a box.\<close>

lemma KeyB_objects:
  "rigidBodies (E (keypress ''KeyB'' (app_init fr g))) = [0, 1, 2, 3, 4, 5]"
  "physicsUniverse (E (keypress ''KeyB'' (app_init fr g))) = [0, 1, 2, 3, 4, 5]"
  "renderCallback (E (keypress ''KeyB'' (app_init fr g))) = Some Readout_callback"
  "\<exists>m. meshes (E (keypress ''KeyB'' (app_init fr g))) 5 = Some m \<and> physicsBody m = 5"
  "\<exists>b. bodies (E (keypress ''KeyB'' (app_init fr g))) 5 = Some b \<and>
       mass b = randomMass (fst (generateRandomObjectParams g))"
  "\<exists>m. meshes (E (keypress ''KeyB'' (app_init fr g))) 0 = Some m \<and> physicsBody m = 0"
  "\<exists>b. bodies (E (keypress ''KeyB'' (app_init fr g))) 0 = Some b \<and> mass b = 0 \<and>
       motionState b = Some \<lparr>origin = \<lparr>vx = 0, vy = 2, vz = 11\<rparr>,
                              rotation = \<lparr>qx = 0.25, qy = 0, qz = 0, qw = 1\<rparr>\<rparr>"
  by (simp_all add: E_keypress_spawn spawnBox_def app_init_def render_new_Engine makeFloor_def
      createBox_fields create_mesh_body_fields Let_def) (simp_all add: new_Engine_def)

section \<open>C3: the visual follows the physics\<close>

text \<open>
  Claim C3: after \<open>updatePhysics\<close>, every object of the registry whose body has a motion
  state has, as the position and the quaternion of its mesh, the origin and the rotation of
  the world transform that this motion state reports after the step. The transfer goes one
  way: the bodies after \<open>updatePhysics\<close> are those the step of the physics engine left,
  whatever the meshes hold, and the world has the same members.
\<close>

theorem updatePhysics_syncs:
  assumes "r \<in> set (rigidBodies eng)"
    and "meshes (updatePhysics mo dt eng) r = Some m"
    and "bodies (updatePhysics mo dt eng) (physicsBody m) = Some b"
    and "motionState b = Some t"
  shows "position m = Position_set (vx (origin t)) (vy (origin t)) (vz (origin t)) \<and>
         quaternion m = rotation t \<and>
         bodies (updatePhysics mo dt eng) =
           (\<lambda>p. if p \<in> set (physicsUniverse eng)
                then map_option (\<lambda>b. if mass b = 0 then b else b\<lparr>motionState := mo p\<rparr>) (bodies eng p)
                else bodies eng p) \<and>
         physicsUniverse (updatePhysics mo dt eng) = physicsUniverse eng"
proof -
  have t: "transform_of (updatePhysics mo dt eng) r = Some t"
    using assms by (simp add: transform_of_def)
  then have t': "transform_of (stepSimulation mo dt 10 eng) r = Some t"
    by (simp add: updatePhysics_frame)
  have "position m = Position_set (vx (origin t)) (vy (origin t)) (vz (origin t)) \<and>
      quaternion m = rotation t"
    using assms(1,2) t' by (auto simp: updatePhysics_meshes)
  moreover have "bodies (updatePhysics mo dt eng) =
      (\<lambda>p. if p \<in> set (physicsUniverse eng)
           then map_option (\<lambda>b. if mass b = 0 then b else b\<lparr>motionState := mo p\<rparr>) (bodies eng p)
           else bodies eng p)"
    by (simp add: updatePhysics_frame) (simp add: stepSimulation_def)
  ultimately show ?thesis by (simp add: updatePhysics_frame)
qed

theorem updatePhysics_syncs_witness:
  "5 \<in> set (rigidBodies (E (keypress ''KeyB'' (app_init \<lparr>delta = 0, motion = \<lambda>p. None\<rparr> (sconst (1/2)))))) \<and>
   (\<exists>m b. meshes (updatePhysics (\<lambda>p. Some \<lparr>origin = \<lparr>vx = 1, vy = 2, vz = 3\<rparr>, rotation = \<lparr>qx = 0, qy = 0, qz = 0, qw = 1\<rparr>\<rparr>) (1/60) (E (keypress ''KeyB'' (app_init \<lparr>delta = 0, motion = \<lambda>p. None\<rparr> (sconst (1/2)))))) 5 = Some m \<and>
          bodies (updatePhysics (\<lambda>p. Some \<lparr>origin = \<lparr>vx = 1, vy = 2, vz = 3\<rparr>, rotation = \<lparr>qx = 0, qy = 0, qz = 0, qw = 1\<rparr>\<rparr>) (1/60) (E (keypress ''KeyB'' (app_init \<lparr>delta = 0, motion = \<lambda>p. None\<rparr> (sconst (1/2)))))) (physicsBody m) = Some b \<and>
          motionState b = Some \<lparr>origin = \<lparr>vx = 1, vy = 2, vz = 3\<rparr>, rotation = \<lparr>qx = 0, qy = 0, qz = 0, qw = 1\<rparr>\<rparr> \<and>
          position m = Position_set 1 2 3 \<and>
          quaternion m = \<lparr>qx = 0, qy = 0, qz = 0, qw = 1\<rparr>)"
proof -
  let ?g = "sconst (1/2 :: real)"
  let ?eng = "E (keypress ''KeyB'' (app_init \<lparr>delta = 0, motion = \<lambda>p. None\<rparr> (sconst (1/2))))"
  let ?T = "\<lparr>origin = \<lparr>vx = 1, vy = 2, vz = 3\<rparr>, rotation = \<lparr>qx = 0, qy = 0, qz = 0, qw = 1\<rparr>\<rparr>"
  let ?eng' = "updatePhysics (\<lambda>p. Some ?T) (1/60) ?eng"
  have v: "valid_rng ?g" by (simp add: valid_rng_sconst is_double_def doubles)
  have h1: "5 \<in> set (rigidBodies ?eng)" by (simp add: KeyB_objects)
  obtain m5 where m5: "meshes ?eng 5 = Some m5" "physicsBody m5 = 5"
    using KeyB_objects(4) by blast
  obtain b5 where b5: "bodies ?eng 5 = Some b5" "mass b5 = randomMass (fst (generateRandomObjectParams ?g))"
    using KeyB_objects(5) by blast
  have dyn: "mass b5 \<noteq> 0" using params_bounds(6) [OF v] b5(2) by simp
  have t: "transform_of (stepSimulation (\<lambda>p. Some ?T) (1/60) 10 ?eng) 5 = Some ?T"
    using dyn by (simp add: transform_of_def stepSimulation_def m5 b5(1) KeyB_objects)
  obtain m where h2: "meshes ?eng' 5 = Some m" and pb: "physicsBody m = 5"
    using h1 m5 t by (simp add: updatePhysics_meshes)
  obtain b where h3: "bodies ?eng' (physicsBody m) = Some b" and h4: "motionState b = Some ?T"
    using b5(1) dyn by (simp add: pb updatePhysics_frame stepSimulation_def KeyB_objects)
  from updatePhysics_syncs [OF h1 h2 h3 h4]
  have p: "position m = Position_set 1 2 3" and q: "quaternion m = \<lparr>qx = 0, qy = 0, qz = 0, qw = 1\<rparr>"
    by simp_all
  show ?thesis
    by (intro conjI exI [of _ m] exI [of _ b]) (rule h1 h2 h3 h4 p q)+
qed

section \<open>C4: the order of a frame\<close>

text \<open>
  Claim C4: the calls of one frame are, in this order: \<open>clock.getDelta()\<close>;
  \<open>stepSimulation\<close> with that delta and 10 sub-steps; for the objects of the registry, in
  the order of the registry, the reading of the world transform and the writing of position
  and quaternion; the rendering; the call of \<open>renderCallback\<close>, without arguments, if one
  is set; \<open>requestAnimationFrame\<close>. And the frame does what it calls: afterwards the
  bodies are those the step left, the mesh of every object of the registry whose body
  reports a world transform after the step has the origin and the rotation of that
  transform as its position and quaternion, every other mesh is as before, and the
  registry, the scene, the world and the callback are the same.
\<close>

theorem render_order:
  "trace (render fr eng) =
     trace eng @
     [Clock_getDelta (delta fr), StepSimulation (delta fr) 10] @
     concat (map (sync_effects (stepSimulation (motion fr) (delta fr) 10 eng)) (rigidBodies eng)) @
     [Renderer_render] @
     (case renderCallback eng of None \<Rightarrow> [] | Some cb \<Rightarrow> [Call_renderCallback []]) @
     [RequestAnimationFrame] \<and>
   bodies (render fr eng) =
     (\<lambda>p. if p \<in> set (physicsUniverse eng)
          then map_option (\<lambda>b. if mass b = 0 then b else b\<lparr>motionState := motion fr p\<rparr>) (bodies eng p)
          else bodies eng p) \<and>
   meshes (render fr eng) =
     (\<lambda>r. if r \<in> set (rigidBodies eng)
          then (case transform_of (stepSimulation (motion fr) (delta fr) 10 eng) r of
                  None \<Rightarrow> meshes eng r
                | Some t \<Rightarrow>
                    map_option (\<lambda>m. m\<lparr>position := Position_set (vx (origin t)) (vy (origin t)) (vz (origin t)),
                                       quaternion := rotation t\<rparr>) (meshes eng r))
          else meshes eng r) \<and>
   transform_of (render fr eng) = transform_of (stepSimulation (motion fr) (delta fr) 10 eng) \<and>
   rigidBodies (render fr eng) = rigidBodies eng \<and>
   scene (render fr eng) = scene eng \<and>
   physicsUniverse (render fr eng) = physicsUniverse eng \<and>
   renderCallback (render fr eng) = renderCallback eng"
proof -
  let ?eng0 = "eng\<lparr>trace := trace eng @ [Clock_getDelta (delta fr)]\<rparr>"
  let ?eng1 = "updatePhysics (motion fr) (delta fr) ?eng0"
  have same: "sync_effects (stepSimulation (motion fr) (delta fr) 10 ?eng0) =
      sync_effects (stepSimulation (motion fr) (delta fr) 10 eng)"
    by (rule sync_effects_cong) (simp_all add: stepSimulation_def cong: if_cong)
  have physics: "trace ?eng1 =
      trace eng @ [Clock_getDelta (delta fr), StepSimulation (delta fr) 10] @
      concat (map (sync_effects (stepSimulation (motion fr) (delta fr) 10 eng)) (rigidBodies eng))"
    by (simp add: updatePhysics_trace same)
  have cb: "renderCallback ?eng1 = renderCallback eng"
    by (simp add: updatePhysics_frame)
  have tr: "trace (render fr eng) =
     trace eng @
     [Clock_getDelta (delta fr), StepSimulation (delta fr) 10] @
     concat (map (sync_effects (stepSimulation (motion fr) (delta fr) 10 eng)) (rigidBodies eng)) @
     [Renderer_render] @
     (case renderCallback eng of None \<Rightarrow> [] | Some cb \<Rightarrow> [Call_renderCallback []]) @
     [RequestAnimationFrame]"
    by (cases "renderCallback eng")
       (simp_all add: render_def Let_def call_renderCallback_def physics cb)
  have bo: "bodies (render fr eng) =
     (\<lambda>p. if p \<in> set (physicsUniverse eng)
          then map_option (\<lambda>b. if mass b = 0 then b else b\<lparr>motionState := motion fr p\<rparr>) (bodies eng p)
          else bodies eng p)"
    by (simp add: render_frame) (simp add: stepSimulation_def)
  have me: "meshes (render fr eng) =
     (\<lambda>r. if r \<in> set (rigidBodies eng)
          then (case transform_of (stepSimulation (motion fr) (delta fr) 10 eng) r of
                  None \<Rightarrow> meshes eng r
                | Some t \<Rightarrow>
                    map_option (\<lambda>m. m\<lparr>position := Position_set (vx (origin t)) (vy (origin t)) (vz (origin t)),
                                       quaternion := rotation t\<rparr>) (meshes eng r))
          else meshes eng r)"
    by (rule ext) (simp only: render_frame updatePhysics_meshes)
  show ?thesis
    by (intro conjI) (rule tr bo me render_observations render_frame)+
qed

theorem render_order_witness:
  "(\<exists>m. meshes (render \<lparr>delta = 1/60, motion = \<lambda>p. Some \<lparr>origin = \<lparr>vx = 1, vy = 2, vz = 3\<rparr>, rotation = \<lparr>qx = 0, qy = 0, qz = 0, qw = 1\<rparr>\<rparr>\<rparr>
              (E (keypress ''KeyB'' (app_init \<lparr>delta = 0, motion = \<lambda>p. None\<rparr> (sconst (1/2)))))) 5 = Some m \<and>
        position m = Position_set 1 2 3) \<and>
   rigidBodies (render \<lparr>delta = 1/60, motion = \<lambda>p. Some \<lparr>origin = \<lparr>vx = 1, vy = 2, vz = 3\<rparr>, rotation = \<lparr>qx = 0, qy = 0, qz = 0, qw = 1\<rparr>\<rparr>\<rparr>
              (E (keypress ''KeyB'' (app_init \<lparr>delta = 0, motion = \<lambda>p. None\<rparr> (sconst (1/2)))))) = [0, 1, 2, 3, 4, 5] \<and>
   (\<exists>rest. trace (render \<lparr>delta = 1/60, motion = \<lambda>p. Some \<lparr>origin = \<lparr>vx = 1, vy = 2, vz = 3\<rparr>, rotation = \<lparr>qx = 0, qy = 0, qz = 0, qw = 1\<rparr>\<rparr>\<rparr>
              (E (keypress ''KeyB'' (app_init \<lparr>delta = 0, motion = \<lambda>p. None\<rparr> (sconst (1/2)))))) =
      trace (E (keypress ''KeyB'' (app_init \<lparr>delta = 0, motion = \<lambda>p. None\<rparr> (sconst (1/2))))) @
      [Clock_getDelta (1/60), StepSimulation (1/60) 10] @ rest)"
proof -
  let ?g = "sconst (1/2 :: real)"
  let ?eng = "E (keypress ''KeyB'' (app_init \<lparr>delta = 0, motion = \<lambda>p. None\<rparr> (sconst (1/2))))"
  let ?T = "\<lparr>origin = \<lparr>vx = 1, vy = 2, vz = 3\<rparr>, rotation = \<lparr>qx = 0, qy = 0, qz = 0, qw = 1\<rparr>\<rparr>"
  let ?fr = "\<lparr>delta = 1/60, motion = \<lambda>p. Some \<lparr>origin = \<lparr>vx = 1, vy = 2, vz = 3\<rparr>, rotation = \<lparr>qx = 0, qy = 0, qz = 0, qw = 1\<rparr>\<rparr>\<rparr>"
  have v: "valid_rng ?g" by (simp add: valid_rng_sconst is_double_def doubles)
  obtain m5 where m5: "meshes ?eng 5 = Some m5" "physicsBody m5 = 5"
    using KeyB_objects(4) by blast
  obtain b5 where b5: "bodies ?eng 5 = Some b5" "mass b5 = randomMass (fst (generateRandomObjectParams ?g))"
    using KeyB_objects(5) by blast
  have dyn: "mass b5 \<noteq> 0" using params_bounds(6) [OF v] b5(2) by simp
  have t5: "transform_of (stepSimulation (motion ?fr) (delta ?fr) 10 ?eng) 5 = Some ?T"
    using dyn by (simp add: transform_of_def stepSimulation_def m5 b5(1) KeyB_objects)
  note t = render_order [of ?fr ?eng]
  note tr = t [THEN conjunct1]
  note me = t [THEN conjunct2, THEN conjunct2, THEN conjunct1, THEN fun_cong, of 5]
  note rb = t [THEN conjunct2, THEN conjunct2, THEN conjunct2, THEN conjunct2, THEN conjunct1]
  have "meshes (render ?fr ?eng) 5 =
      Some (m5\<lparr>position := Position_set 1 2 3, quaternion := \<lparr>qx = 0, qy = 0, qz = 0, qw = 1\<rparr>\<rparr>)"
    unfolding me t5 by (simp add: m5 KeyB_objects)
  then have 1: "\<exists>m. meshes (render ?fr ?eng) 5 = Some m \<and> position m = Position_set 1 2 3"
    by simp
  have 2: "rigidBodies (render ?fr ?eng) = [0, 1, 2, 3, 4, 5]"
    unfolding rb by (simp add: KeyB_objects)
  have 3: "\<exists>rest. trace (render ?fr ?eng) =
      trace ?eng @ [Clock_getDelta (1/60), StepSimulation (1/60) 10] @ rest"
    unfolding tr by simp
  from 1 2 3 show ?thesis by (intro conjI)
qed

section \<open>C6: an object without motion state\<close>

text \<open>
  Claim C6: when the body of an object of the registry has no motion state, the frame leaves
  the mesh of this object as it was and makes no call for it; every other object of the
  registry whose body has a motion state is synchronised; and the frame goes on to the
  rendering, the callback and \<open>requestAnimationFrame\<close>.
\<close>

theorem sync_skips_missing_motion_state:
  assumes "r \<in> set (rigidBodies eng)"
    and "meshes eng r = Some m"
    and "bodies (render fr eng) (physicsBody m) = Some b"
    and "motionState b = None"
  shows "meshes (render fr eng) r = Some m \<and>
         sync_effects (render fr eng) r = [] \<and>
         (\<forall>r' \<in> set (rigidBodies eng). \<forall>m' b' t.
            meshes (render fr eng) r' = Some m' \<and>
            bodies (render fr eng) (physicsBody m') = Some b' \<and>
            motionState b' = Some t \<longrightarrow>
            position m' = Position_set (vx (origin t)) (vy (origin t)) (vz (origin t)) \<and>
            quaternion m' = rotation t) \<and>
         trace (render fr eng) =
           trace eng @
           [Clock_getDelta (delta fr), StepSimulation (delta fr) 10] @
           concat (map (sync_effects (render fr eng)) (rigidBodies eng)) @
           [Renderer_render] @
           (case renderCallback eng of None \<Rightarrow> [] | Some cb \<Rightarrow> [Call_renderCallback []]) @
           [RequestAnimationFrame]"
proof -
  let ?st = "stepSimulation (motion fr) (delta fr) 10 eng"
  have "transform_of ?st r = None"
    using assms(2-4) by (simp add: transform_of_def render_frame stepSimulation_frame)
  then have skipped: "meshes (render fr eng) r = Some m" "sync_effects (render fr eng) r = []"
    using assms(1,2)
    by (simp_all add: render_frame updatePhysics_meshes sync_effects_def render_observations)
  have synced: "position m' = Position_set (vx (origin t)) (vy (origin t)) (vz (origin t)) \<and>
      quaternion m' = rotation t"
    if "r' \<in> set (rigidBodies eng)" "meshes (render fr eng) r' = Some m'"
      "bodies (render fr eng) (physicsBody m') = Some b'" "motionState b' = Some t"
    for r' m' b' t
  proof -
    have "transform_of (render fr eng) r' = Some t"
      using that by (simp add: transform_of_def)
    then have "transform_of ?st r' = Some t" by (simp add: render_observations)
    then show ?thesis
      using that(1,2) by (auto simp: render_frame updatePhysics_meshes)
  qed
  have "sync_effects (render fr eng) = sync_effects ?st"
    by (rule sync_effects_eqI) (simp_all add: render_observations stepSimulation_frame)
  then have tr: "trace (render fr eng) =
      trace eng @ [Clock_getDelta (delta fr), StepSimulation (delta fr) 10] @
      concat (map (sync_effects (render fr eng)) (rigidBodies eng)) @ [Renderer_render] @
      (case renderCallback eng of None \<Rightarrow> [] | Some cb \<Rightarrow> [Call_renderCallback []]) @
      [RequestAnimationFrame]"
    by (simp add: render_eq)
  from skipped synced tr show ?thesis by blast
qed


theorem sync_skips_missing_motion_state_witness:
  "5 \<in> set (rigidBodies (E (keypress ''KeyB'' (app_init \<lparr>delta = 0, motion = \<lambda>p. None\<rparr> (sconst (1/2)))))) \<and>
   0 \<in> set (rigidBodies (E (keypress ''KeyB'' (app_init \<lparr>delta = 0, motion = \<lambda>p. None\<rparr> (sconst (1/2)))))) \<and>
   (\<exists>m b. meshes (E (keypress ''KeyB'' (app_init \<lparr>delta = 0, motion = \<lambda>p. None\<rparr> (sconst (1/2))))) 5 = Some m \<and>
      bodies (render
          \<lparr>delta = 1/60,
           motion = \<lambda>p. if p = 5 then None
                         else Some \<lparr>origin = \<lparr>vx = 1, vy = 2, vz = 3\<rparr>,
                                    rotation = \<lparr>qx = 0, qy = 0, qz = 0, qw = 1\<rparr>\<rparr>\<rparr>
          (E (keypress ''KeyB'' (app_init \<lparr>delta = 0, motion = \<lambda>p. None\<rparr> (sconst (1/2)))))) (physicsBody m) = Some b \<and>
      motionState b = None \<and>
      meshes (render
          \<lparr>delta = 1/60,
           motion = \<lambda>p. if p = 5 then None
                         else Some \<lparr>origin = \<lparr>vx = 1, vy = 2, vz = 3\<rparr>,
                                    rotation = \<lparr>qx = 0, qy = 0, qz = 0, qw = 1\<rparr>\<rparr>\<rparr>
          (E (keypress ''KeyB'' (app_init \<lparr>delta = 0, motion = \<lambda>p. None\<rparr> (sconst (1/2)))))) 5 = Some m) \<and>
   (\<exists>m. meshes (render
          \<lparr>delta = 1/60,
           motion = \<lambda>p. if p = 5 then None
                         else Some \<lparr>origin = \<lparr>vx = 1, vy = 2, vz = 3\<rparr>,
                                    rotation = \<lparr>qx = 0, qy = 0, qz = 0, qw = 1\<rparr>\<rparr>\<rparr>
          (E (keypress ''KeyB'' (app_init \<lparr>delta = 0, motion = \<lambda>p. None\<rparr> (sconst (1/2)))))) 0 = Some m \<and>
        position m = Position_set 0 2 11)"
proof -
  let ?g = "sconst (1/2 :: real)"
  let ?eng = "E (keypress ''KeyB'' (app_init \<lparr>delta = 0, motion = \<lambda>p. None\<rparr> (sconst (1/2))))"
  let ?fr = "\<lparr>delta = 1/60,
           motion = \<lambda>p. if p = 5 then None
                         else Some \<lparr>origin = \<lparr>vx = 1, vy = 2, vz = 3\<rparr>,
                                    rotation = \<lparr>qx = 0, qy = 0, qz = 0, qw = 1\<rparr>\<rparr>\<rparr>"
  let ?T0 = "\<lparr>origin = \<lparr>vx = 0, vy = 2, vz = 11\<rparr>, rotation = \<lparr>qx = 0.25, qy = 0, qz = 0, qw = 1\<rparr>\<rparr>"
  have v: "valid_rng ?g" by (simp add: valid_rng_sconst is_double_def doubles)
  have h1: "5 \<in> set (rigidBodies ?eng)" and h1': "0 \<in> set (rigidBodies ?eng)"
    by (simp_all add: KeyB_objects)
  obtain m5 where m5: "meshes ?eng 5 = Some m5" "physicsBody m5 = 5"
    using KeyB_objects(4) by blast
  obtain b5 where b5: "bodies ?eng 5 = Some b5" "mass b5 = randomMass (fst (generateRandomObjectParams ?g))"
    using KeyB_objects(5) by blast
  have dyn: "mass b5 \<noteq> 0" using params_bounds(6) [OF v] b5(2) by simp
  obtain m0 where m0: "meshes ?eng 0 = Some m0" "physicsBody m0 = 0"
    using KeyB_objects(6) by blast
  obtain b0 where b0: "bodies ?eng 0 = Some b0" "mass b0 = 0" "motionState b0 = Some ?T0"
    using KeyB_objects(7) by blast
  obtain b where h3: "bodies (render ?fr ?eng) (physicsBody m5) = Some b" and h4: "motionState b = None"
    using b5(1) dyn by (simp add: m5 render_frame stepSimulation_def KeyB_objects)
  note t = sync_skips_missing_motion_state [OF h1 m5(1) h3 h4]
  note skipped = t [THEN conjunct1]
  note others = t [THEN conjunct2, THEN conjunct2, THEN conjunct1, rule_format]
  have t0: "transform_of (stepSimulation (motion ?fr) (delta ?fr) 10 ?eng) 0 = Some ?T0"
    by (simp add: transform_of_def stepSimulation_def m0 b0 KeyB_objects)
  obtain m where h2': "meshes (render ?fr ?eng) 0 = Some m" and pb: "physicsBody m = 0"
    using h1' m0 t0 by (simp add: render_frame updatePhysics_meshes)
  obtain b' where h3': "bodies (render ?fr ?eng) (physicsBody m) = Some b'"
      and h4': "motionState b' = Some ?T0"
    using b0 by (simp add: pb render_frame stepSimulation_def KeyB_objects)
  from others [OF h1' conjI [OF h2' conjI [OF h3' h4']]]
  have p: "position m = Position_set 0 2 11" by simp
  show ?thesis
    by (intro conjI exI [of _ m5] exI [of _ b] exI [of _ m])
       (rule h1 h1' m5 h3 h4 skipped h2' p)+
qed

section \<open>Facts about the states of the program\<close>

lemma wf_new_Engine: "wf_engine new_Engine"
  by (simp add: wf_engine_def new_Engine_def)

lemma wf_create_mesh_body:
  assumes "wf_engine eng"
  shows "wf_engine (snd (create_mesh_body geom shp pos q ms nm col eng))"
proof -
  have inj: "inj_on (body_of eng) {..<nextMeshId eng}"
    and lt: "\<forall>r < nextMeshId eng. body_of eng r < nextPtr eng"
    using assms by (auto simp: wf_engine_def body_of_def)
  let ?eng = "snd (create_mesh_body geom shp pos q ms nm col eng)"
  have b: "body_of ?eng = (body_of eng)(nextMeshId eng := nextPtr eng)"
    by (simp add: create_mesh_body_fields body_of_def fun_eq_iff)
  have "inj_on (body_of ?eng) {..<Suc (nextMeshId eng)}"
    unfolding b lessThan_Suc using inj lt
    by (auto simp: inj_on_def)
  then show ?thesis
    using assms
    by (auto simp: wf_engine_def create_mesh_body_fields less_Suc_eq)
qed

lemma create_snd:
  "snd (createSphere radius pos q ms nm col eng) =
     snd (create_mesh_body (SphereGeometry radius 32 16) (btSphereShape radius) pos q ms nm col eng)"
  "snd (createCapsule radius len pos q ms nm col eng) =
     snd (create_mesh_body (CapsuleGeometry radius len) (btCapsuleShape radius len) pos q ms nm col eng)"
  by (simp_all add: createSphere_def createCapsule_def split: prod.splits)

lemma wf_spawn:
  assumes "wf_engine eng"
  shows "wf_engine (spawnSphere rp eng)" "wf_engine (spawnBox rp eng)" "wf_engine (spawnCapsule rp eng)"
  by (simp_all add: spawnSphere_def spawnBox_def spawnCapsule_def create_snd createBox_fields
      wf_create_mesh_body [OF assms])

lemma wf_createBox: "wf_engine eng \<Longrightarrow> wf_engine (snd (createBox sc pos q ms nm col eng))"
  by (simp add: createBox_fields wf_create_mesh_body)

lemma wf_makeFloor: "wf_engine eng \<Longrightarrow> wf_engine (makeFloor eng)"
  by (simp add: makeFloor_def Let_def wf_createBox)

lemma set_fold_remove1:
  "distinct ys \<Longrightarrow> set (fold remove1 xs ys) = set ys - set xs \<and> distinct (fold remove1 xs ys)"
  by (induction xs arbitrary: ys) auto

lemma wf_removeBodies:
  assumes "wf_engine eng"
  shows "wf_engine (removeBodies t eng)"
proof -
  have "body_of (removeBodies t eng) = body_of eng"
    by (rule body_of_cong) (simp add: removeBodies_frame)
  then show ?thesis
    using assms by (auto simp: wf_engine_def removeBodies_eq set_fold_remove1)
qed

lemma wf_render:
  assumes "wf_engine eng"
  shows "wf_engine (render fr eng)"
proof -
  have m: "\<exists>m'. meshes (render fr eng) r = Some m' \<and> physicsBody m' < nextPtr eng"
    if "r < nextMeshId eng" for r
  proof -
    from that assms obtain m where "meshes eng r = Some m" "physicsBody m < nextPtr eng"
      by (auto simp: wf_engine_def)
    then show ?thesis
      by (auto simp: render_frame updatePhysics_meshes split: option.splits)
  qed
  have b: "bodies (render fr eng) p \<noteq> None" if "p < nextPtr eng" for p
    using that assms by (auto simp: wf_engine_def render_frame stepSimulation_def)
  show ?thesis
    using assms m b by (auto simp: wf_engine_def render_frame render_observations)
qed


lemma wf_registry_mesh:
  "wf_engine eng \<Longrightarrow> r \<in> set (rigidBodies eng) \<Longrightarrow> \<exists>m. meshes eng r = Some m"
  by (auto simp: wf_engine_def)

lemma selected_mesh_name:
  "meshes eng r = Some m \<Longrightarrow> selected t eng r = t (mesh_name eng r)"
  by (simp add: selected_def mesh_name_def)

lemma removeBodies_registry:
  assumes "wf_engine eng"
  shows "rigidBodies (removeBodies t eng) = filter (\<lambda>r. \<not> t (mesh_name eng r)) (rigidBodies eng)"
  unfolding removeBodies_frame
  by (rule filter_cong [OF refl]) (use wf_registry_mesh [OF assms] selected_mesh_name in blast)

lemma removeBodies_selected:
  assumes "wf_engine eng"
  shows "filter (selected t eng) (rigidBodies eng) = filter (\<lambda>r. t (mesh_name eng r)) (rigidBodies eng)"
  by (rule filter_cong [OF refl]) (use wf_registry_mesh [OF assms] selected_mesh_name in blast)

lemma removeBodies_scene:
  assumes "wf_engine eng"
  shows "set (scene (removeBodies t eng)) =
     set (scene eng) - {r \<in> set (rigidBodies eng). t (mesh_name eng r)}"
proof -
  have "distinct (scene eng)" using assms by (simp add: wf_engine_def)
  then show ?thesis
    by (simp add: removeBodies_eq set_fold_remove1 removeBodies_selected [OF assms])
qed

lemma removeBodies_physicsUniverse:
  assumes "wf_engine eng"
  shows "set (physicsUniverse (removeBodies t eng)) =
     set (physicsUniverse eng) - body_of eng ` {r \<in> set (rigidBodies eng). t (mesh_name eng r)}"
proof -
  have "distinct (physicsUniverse eng)" using assms by (simp add: wf_engine_def)
  then show ?thesis
    by (simp add: removeBodies_eq set_fold_remove1 removeBodies_selected [OF assms])
qed

lemma removeBodies_mesh_name: "mesh_name (removeBodies t eng) = mesh_name eng"
  by (rule mesh_name_cong) (simp add: removeBodies_frame)

lemma removeBodies_body_of: "body_of (removeBodies t eng) = body_of eng"
  by (rule body_of_cong) (simp add: removeBodies_frame)

lemma E_keypress_KeyR:
  "E (keypress ''KeyR'' s) = removeBodies (\<lambda>n. n \<noteq> ''floor'') (E s)"
  "floorIsShowing (keypress ''KeyR'' s) = floorIsShowing s"
  by (simp_all add: keypress_def dispatch_def split: prod.splits)

lemma E_keypress_KeyF:
  "E (keypress ''KeyF'' s) =
     (if floorIsShowing s then removeBodies (\<lambda>n. n = ''floor'') (E s) else makeFloor (E s))"
  by (simp add: keypress_def dispatch_def split: prod.splits)

lemma E_keypress_other:
  "code \<notin> {''KeyS'', ''KeyB'', ''KeyC'', ''Space'', ''KeyR'', ''KeyF''} \<Longrightarrow> E (keypress code s) = E s"
  by (simp add: keypress_def dispatch_def Let_def split: prod.splits)

lemma floorIsShowing_generateRandomObject:
  "floorIsShowing (generateRandomObject rp s) = floorIsShowing s"
  by (simp add: generateRandomObject_def Let_def split: prod.splits)

lemma floorIsShowing_keypress:
  "floorIsShowing (keypress code s) =
     (if code = ''KeyF'' then \<not> floorIsShowing s else floorIsShowing s)"
  by (simp add: keypress_def dispatch_def floorIsShowing_generateRandomObject Let_def
      split: prod.splits)

lemma body_of_inj:
  assumes "wf_engine eng" "r \<in> set (rigidBodies eng)" "r' \<in> set (rigidBodies eng)"
    "body_of eng r = body_of eng r'"
  shows "r = r'"
proof -
  have "inj_on (body_of eng) {..<nextMeshId eng}" "r < nextMeshId eng" "r' < nextMeshId eng"
    using assms by (simp_all add: wf_engine_def)
  then show ?thesis using assms(4) by (auto dest: inj_onD)
qed

lemma create_mesh_body_mesh_name:
  "mesh_name (snd (create_mesh_body geom shp pos q ms nm col eng)) =
     (mesh_name eng)(nextMeshId eng := nm)"
  by (simp add: create_mesh_body_fields mesh_name_def fun_eq_iff)

lemma create_mesh_body_floor_objects:
  assumes "wf_engine eng"
  shows "floor_objects (snd (create_mesh_body geom shp pos q ms nm col eng)) =
      floor_objects eng @ (if nm = ''floor'' then [nextMeshId eng] else [])"
    and "other_objects (snd (create_mesh_body geom shp pos q ms nm col eng)) =
      other_objects eng @ (if nm = ''floor'' then [] else [nextMeshId eng])"
proof -
  let ?eng' = "snd (create_mesh_body geom shp pos q ms nm col eng)"
  have neq: "\<forall>r \<in> set (rigidBodies eng). r \<noteq> nextMeshId eng"
    using assms by (auto simp: wf_engine_def)
  have reg: "rigidBodies ?eng' = rigidBodies eng @ [nextMeshId eng]"
    by (simp add: create_mesh_body_fields)
  have new: "mesh_name ?eng' (nextMeshId eng) = nm"
    by (simp add: create_mesh_body_mesh_name)
  have f: "filter (\<lambda>r. mesh_name ?eng' r = ''floor'') (rigidBodies eng) = floor_objects eng"
    unfolding floor_objects_def
    by (rule filter_cong) (use neq in \<open>auto simp: create_mesh_body_mesh_name\<close>)
  have g: "filter (\<lambda>r. mesh_name ?eng' r \<noteq> ''floor'') (rigidBodies eng) = other_objects eng"
    unfolding other_objects_def
    by (rule filter_cong) (use neq in \<open>auto simp: create_mesh_body_mesh_name\<close>)
  show "floor_objects ?eng' = floor_objects eng @ (if nm = ''floor'' then [nextMeshId eng] else [])"
    by (simp add: floor_objects_def [of ?eng'] reg f new)
  show "other_objects ?eng' = other_objects eng @ (if nm = ''floor'' then [] else [nextMeshId eng])"
    by (simp add: other_objects_def [of ?eng'] reg g new)
qed

lemma spawn_floor_objects:
  assumes "wf_engine eng"
  shows "floor_objects (spawnSphere rp eng) = floor_objects eng"
    "floor_objects (spawnBox rp eng) = floor_objects eng"
    "floor_objects (spawnCapsule rp eng) = floor_objects eng"
    "other_objects (spawnSphere rp eng) = other_objects eng @ [nextMeshId eng]"
    "other_objects (spawnBox rp eng) = other_objects eng @ [nextMeshId eng]"
    "other_objects (spawnCapsule rp eng) = other_objects eng @ [nextMeshId eng]"
  by (simp_all add: spawnSphere_def spawnBox_def spawnCapsule_def create_snd createBox_fields
      create_mesh_body_floor_objects [OF assms])

lemma createBox_floor:
  assumes "wf_engine eng"
  shows "floor_objects (snd (createBox sc pos q ms ''floor'' col eng)) =
      floor_objects eng @ [nextMeshId eng]"
    and "other_objects (snd (createBox sc pos q ms ''floor'' col eng)) = other_objects eng"
    and "nextMeshId (snd (createBox sc pos q ms ''floor'' col eng)) = Suc (nextMeshId eng)"
    and "nextPtr (snd (createBox sc pos q ms ''floor'' col eng)) = Suc (nextPtr eng)"
  by (simp_all add: createBox_fields create_mesh_body_floor_objects [OF assms])
     (simp_all add: create_mesh_body_fields)

lemma makeFloor_floor_objects:
  assumes "wf_engine eng"
  shows "floor_objects (makeFloor eng) =
      floor_objects eng @ [nextMeshId eng, nextMeshId eng + 1, nextMeshId eng + 2,
        nextMeshId eng + 3, nextMeshId eng + 4]"
    and "other_objects (makeFloor eng) = other_objects eng"
  by (simp_all add: makeFloor_def Let_def createBox_floor wf_createBox assms)

lemma wf_engine_renderCallback:
  "wf_engine (eng\<lparr>renderCallback := c\<rparr>) = wf_engine eng"
proof -
  have "body_of (eng\<lparr>renderCallback := c\<rparr>) = body_of eng"
    by (rule body_of_cong) simp
  then show ?thesis by (simp add: wf_engine_def)
qed

lemma wf_app_init: "wf_engine (E (app_init fr g))"
  by (simp add: app_init_def wf_makeFloor wf_engine_renderCallback wf_render wf_new_Engine)

lemma floor_objects_app_init: "floor_objects (E (app_init fr g)) = [0, 1, 2, 3, 4]"
proof -
  let ?eng = "(render fr new_Engine)\<lparr>renderCallback := Some Readout_callback\<rparr>"
  have wf: "wf_engine ?eng"
    by (simp add: wf_engine_renderCallback wf_render wf_new_Engine)
  have "floor_objects ?eng = []" "nextMeshId ?eng = 0"
    by (simp_all add: floor_objects_def render_frame) (simp_all add: new_Engine_def)
  then show ?thesis
    by (simp add: app_init_def makeFloor_floor_objects [OF wf])
qed

lemma inv_generateRandomObject:
  assumes "wf_engine (E s)"
  shows "wf_engine (E (generateRandomObject rp s)) \<and>
     floor_objects (E (generateRandomObject rp s)) = floor_objects (E s) \<and>
     floorIsShowing (generateRandomObject rp s) = floorIsShowing s"
  using assms
  by (simp add: generateRandomObject_def Let_def wf_spawn spawn_floor_objects split: prod.splits)

lemma removeBodies_floor_objects:
  assumes "wf_engine eng"
  shows "floor_objects (removeBodies (\<lambda>n. n \<noteq> ''floor'') eng) = floor_objects eng"
    "floor_objects (removeBodies (\<lambda>n. n = ''floor'') eng) = []"
    "other_objects (removeBodies (\<lambda>n. n = ''floor'') eng) = other_objects eng"
  by (simp_all add: floor_objects_def other_objects_def removeBodies_registry [OF assms]
      removeBodies_mesh_name)

lemma inv_keypress:
  assumes "wf_engine (E s)" "floor_consistent s"
  shows "wf_engine (E (keypress code s)) \<and> floor_consistent (keypress code s)"
proof -
  consider "code = ''KeyS''" | "code = ''KeyB''" | "code = ''KeyC''" | "code = ''Space''"
    | "code = ''KeyR''" | "code = ''KeyF''"
    | "code \<notin> {''KeyS'', ''KeyB'', ''KeyC'', ''Space'', ''KeyR'', ''KeyF''}"
    by blast
  then show ?thesis
  proof cases
    case 1
    then show ?thesis using assms
      by (simp add: E_keypress_spawn floorIsShowing_keypress floor_consistent_def wf_spawn
          spawn_floor_objects)
  next
    case 2
    then show ?thesis using assms
      by (simp add: E_keypress_spawn floorIsShowing_keypress floor_consistent_def wf_spawn
          spawn_floor_objects)
  next
    case 3
    then show ?thesis using assms
      by (simp add: E_keypress_spawn floorIsShowing_keypress floor_consistent_def wf_spawn
          spawn_floor_objects)
  next
    case 4
    then show ?thesis using assms
      by (simp add: E_keypress_Space Let_def floorIsShowing_keypress floor_consistent_def wf_spawn
          spawn_floor_objects)
  next
    case 5
    then show ?thesis using assms
      by (simp add: E_keypress_KeyR floor_consistent_def wf_removeBodies removeBodies_floor_objects)
  next
    case 6
    show ?thesis
    proof (cases "floorIsShowing s")
      case True
      then show ?thesis using 6 assms
        by (simp add: E_keypress_KeyF floorIsShowing_keypress floor_consistent_def wf_removeBodies
            removeBodies_floor_objects)
    next
      case False
      moreover have "floor_objects (E s) = []"
        using False assms(2) by (simp add: floor_consistent_def)
      ultimately show ?thesis using 6 assms(1)
        by (simp add: E_keypress_KeyF floorIsShowing_keypress floor_consistent_def wf_makeFloor
            makeFloor_floor_objects)
    qed
  next
    case 7
    then have "code \<noteq> ''KeyF''" by auto
    then show ?thesis using 7 assms
      by (simp add: E_keypress_other floorIsShowing_keypress floor_consistent_def
          del: insert_iff)
  qed
qed

lemma E_autoSpawn:
  "autoSpawn s =
     generateRandomObject (fst (generateRandomObjectParams (rng s)))
       (s\<lparr>rng := snd (generateRandomObjectParams (rng s))\<rparr>)"
  by (simp add: autoSpawn_def split: prod.splits)

lemma inv_autoSpawn:
  assumes "wf_engine (E s)" "floor_consistent s"
  shows "wf_engine (E (autoSpawn s)) \<and> floor_consistent (autoSpawn s)"
proof -
  let ?s = "s\<lparr>rng := snd (generateRandomObjectParams (rng s))\<rparr>"
  have "wf_engine (E ?s)" using assms by simp
  from inv_generateRandomObject [OF this, of "fst (generateRandomObjectParams (rng s))"] assms(2)
  show ?thesis
    by (simp add: E_autoSpawn floor_consistent_def)
qed

lemma floor_objects_render: "floor_objects (render fr eng) = floor_objects eng"
  by (simp add: floor_objects_def render_frame render_observations)

lemma other_objects_render: "other_objects (render fr eng) = other_objects eng"
  by (simp add: other_objects_def render_frame render_observations)

lemma inv_step:
  assumes "wf_engine (E s)" "floor_consistent s"
  shows "wf_engine (E (step ev s)) \<and> floor_consistent (step ev s)"
proof (cases ev)
  case (KeyPress code)
  then show ?thesis using inv_keypress [OF assms] by simp
next
  case (IntervalFire t)
  then show ?thesis using inv_autoSpawn [OF assms] assms by simp
next
  case (AnimationFrame fr)
  then show ?thesis using assms
    by (simp add: wf_render floor_consistent_def floor_objects_render)
qed

lemma inv_run:
  assumes "wf_engine (E s)" "floor_consistent s"
  shows "wf_engine (E (run evs s)) \<and> floor_consistent (run evs s)"
  using assms unfolding run_def
proof (induction evs arbitrary: s)
  case Nil
  then show ?case by simp
next
  case (Cons ev evs)
  from inv_step [OF Cons.prems, of ev] show ?case
    by (simp add: Cons.IH)
qed

lemma inv_app_init: "wf_engine (E (app_init fr g)) \<and> floor_consistent (app_init fr g)"
  by (simp add: wf_app_init floor_consistent_def floor_objects_app_init app_init_simps)

lemma makeFloor_composition:
  "map (composition_of (makeFloor eng))
     [nextMeshId eng, Suc (nextMeshId eng), Suc (Suc (nextMeshId eng)),
      Suc (Suc (Suc (nextMeshId eng))), Suc (Suc (Suc (Suc (nextMeshId eng))))] =
   map Some floor_panels"
  by (simp add: makeFloor_def Let_def createBox_fields create_mesh_body_fields composition_of_def
      floor_panels_def floor_panel_def)

lemma makeFloor_floor_objects_Suc:
  assumes "wf_engine eng"
  shows "floor_objects (makeFloor eng) =
      floor_objects eng @ [nextMeshId eng, Suc (nextMeshId eng), Suc (Suc (nextMeshId eng)),
      Suc (Suc (Suc (nextMeshId eng))), Suc (Suc (Suc (Suc (nextMeshId eng))))]"
  by (simp add: makeFloor_floor_objects [OF assms] eval_nat_numeral)

lemma composition_of_create:
  assumes "wf_engine eng" "r < nextMeshId eng"
  shows "composition_of (snd (create_mesh_body geom shp pos q ms nm col eng)) r = composition_of eng r"
proof -
  from assms obtain m where m: "meshes eng r = Some m" "physicsBody m < nextPtr eng"
    by (auto simp: wf_engine_def)
  then show ?thesis using assms(2)
    by (simp add: composition_of_def create_mesh_body_fields)
qed

lemma composition_of_spawnBox:
  assumes "wf_engine eng" "r < nextMeshId eng"
  shows "composition_of (spawnBox rp eng) r = composition_of eng r"
  by (simp add: spawnBox_def createBox_fields composition_of_create [OF assms])


lemma composition_of_spawn:
  assumes "wf_engine eng" "r < nextMeshId eng"
  shows "composition_of (spawnSphere rp eng) r = composition_of eng r"
    "composition_of (spawnCapsule rp eng) r = composition_of eng r"
  by (simp_all add: spawnSphere_def spawnCapsule_def create_snd composition_of_create [OF assms])

lemma composition_of_cong:
  "meshes a = meshes b \<Longrightarrow> bodies a = bodies b \<Longrightarrow> composition_of a = composition_of b"
  by (simp add: composition_of_def fun_eq_iff cong: option.case_cong)

lemma composition_of_removeBodies:
  "composition_of (removeBodies t eng) = composition_of eng"
  by (rule composition_of_cong) (simp_all add: removeBodies_frame)

text \<open>A frame leaves an object with a static body as it is made.\<close>

lemma composition_of_render:
  assumes "composition_of eng r = Some c" "c_mass c = 0"
  shows "composition_of (render fr eng) r = Some c"
proof -
  from assms(1) obtain m b where m: "meshes eng r = Some m"
    and b: "bodies eng (physicsBody m) = Some b"
    and c: "c = \<lparr>c_name = name m, c_geometry = geometry m, c_color = color m,
                 c_mass = mass b, c_shape = collisionShape b, c_transform = motionState b\<rparr>"
    by (auto simp: composition_of_def split: option.splits)
  have mb: "mass b = 0" using assms(2) c by simp
  have b': "bodies (render fr eng) (physicsBody m) = Some b"
    using b mb by (simp add: render_frame stepSimulation_def)
  have "\<exists>m'. meshes (render fr eng) r = Some m' \<and> name m' = name m \<and>
      geometry m' = geometry m \<and> color m' = color m \<and> physicsBody m' = physicsBody m"
    using m
    by (cases "r \<in> set (rigidBodies eng)";
        cases "transform_of (stepSimulation (motion fr) (delta fr) 10 eng) r")
       (simp_all add: render_frame updatePhysics_meshes)
  then obtain m' where m': "meshes (render fr eng) r = Some m'" "name m' = name m"
      "geometry m' = geometry m" "color m' = color m" "physicsBody m' = physicsBody m"
    by blast
  show ?thesis by (simp add: composition_of_def m' b' c)
qed

lemma floor_panels_static: "c \<in> set floor_panels \<Longrightarrow> c_mass c = 0"
  by (auto simp: floor_panels_def floor_panel_def)

text \<open>The floor stays present when its objects stay in the registry and stay as they are.\<close>

lemma floor_present_E:
  assumes "floor_present s" "floorIsShowing s'" "floor_objects (E s') = floor_objects (E s)"
    and "\<And>r c. r \<in> set (floor_objects (E s)) \<Longrightarrow> composition_of (E s) r = Some c \<Longrightarrow>
           c_mass c = 0 \<Longrightarrow> composition_of (E s') r = Some c"
  shows "floor_present s'"
proof -
  have comp: "map (composition_of (E s)) (floor_objects (E s)) = map Some floor_panels"
    using assms(1) by (simp add: floor_present_def)
  have "composition_of (E s') r = composition_of (E s) r" if "r \<in> set (floor_objects (E s))" for r
  proof -
    from that have "composition_of (E s) r \<in> set (map (composition_of (E s)) (floor_objects (E s)))"
      by simp
    then have "composition_of (E s) r \<in> Some ` set floor_panels" by (simp add: comp)
    then obtain c where c: "composition_of (E s) r = Some c" "c \<in> set floor_panels" by auto
    from assms(4) [OF that c(1) floor_panels_static [OF c(2)]] c(1) show ?thesis by simp
  qed
  then have "map (composition_of (E s')) (floor_objects (E s)) =
      map (composition_of (E s)) (floor_objects (E s))"
    by simp
  then show ?thesis using comp assms(2,3) by (simp add: floor_present_def)
qed

lemma floor_objects_lt:
  "wf_engine eng \<Longrightarrow> r \<in> set (floor_objects eng) \<Longrightarrow> r < nextMeshId eng"
  by (auto simp: wf_engine_def floor_objects_def)

lemma floor_present_generateRandomObject:
  assumes "wf_engine (E s)" "floor_present s"
  shows "floor_present (generateRandomObject rp s)"
proof (rule floor_present_E [OF assms(2)])
  show "floorIsShowing (generateRandomObject rp s)"
    using assms(2) by (simp add: floorIsShowing_generateRandomObject floor_present_def)
  show "floor_objects (E (generateRandomObject rp s)) = floor_objects (E s)"
    using inv_generateRandomObject [OF assms(1)] by simp
  show "composition_of (E (generateRandomObject rp s)) r = Some c"
    if "r \<in> set (floor_objects (E s))" "composition_of (E s) r = Some c" for r c
    using that(2) floor_objects_lt [OF assms(1) that(1)] assms(1)
    by (simp add: generateRandomObject_def Let_def composition_of_spawn composition_of_spawnBox
        split: prod.splits)
qed

lemma floor_present_makeFloor:
  assumes "wf_engine eng" "floor_objects eng = []"
  shows "map (composition_of (makeFloor eng)) (floor_objects (makeFloor eng)) = map Some floor_panels"
  unfolding makeFloor_floor_objects_Suc [OF assms(1)] assms(2) append_Nil
  by (rule makeFloor_composition)

lemma floor_present_keypress:
  assumes "wf_engine (E s)" "floor_consistent s" "floorIsShowing s \<longrightarrow> floor_present s"
  shows "floorIsShowing (keypress code s) \<longrightarrow> floor_present (keypress code s)"
proof
  assume sh: "floorIsShowing (keypress code s)"
  let ?rp = "fst (generateRandomObjectParams (rng s))"
  note lt = floor_objects_lt [OF assms(1)]
  consider "code = ''KeyS''" | "code = ''KeyB''" | "code = ''KeyC''" | "code = ''Space''"
    | "code = ''KeyR''" | "code = ''KeyF''"
    | "code \<notin> {''KeyS'', ''KeyB'', ''KeyC'', ''Space'', ''KeyR'', ''KeyF''}"
    by blast
  then show "floor_present (keypress code s)"
  proof cases
    case 1
    then have fp: "floor_present s" using sh assms(3) by (simp add: floorIsShowing_keypress)
    show ?thesis
      by (rule floor_present_E [OF fp sh])
         (simp_all add: 1 E_keypress_spawn spawn_floor_objects composition_of_spawn assms(1) lt)
  next
    case 2
    then have fp: "floor_present s" using sh assms(3) by (simp add: floorIsShowing_keypress)
    show ?thesis
      by (rule floor_present_E [OF fp sh])
         (simp_all add: 2 E_keypress_spawn spawn_floor_objects composition_of_spawnBox assms(1) lt)
  next
    case 3
    then have fp: "floor_present s" using sh assms(3) by (simp add: floorIsShowing_keypress)
    show ?thesis
      by (rule floor_present_E [OF fp sh])
         (simp_all add: 3 E_keypress_spawn spawn_floor_objects composition_of_spawn assms(1) lt)
  next
    case 4
    then have fp: "floor_present s" using sh assms(3) by (simp add: floorIsShowing_keypress)
    show ?thesis
      by (rule floor_present_E [OF fp sh])
         (simp_all add: 4 E_keypress_Space Let_def spawn_floor_objects composition_of_spawn
            composition_of_spawnBox assms(1) lt)
  next
    case 5
    then have fp: "floor_present s" using sh assms(3) by (simp add: floorIsShowing_keypress)
    show ?thesis
      by (rule floor_present_E [OF fp sh])
         (simp_all add: 5 E_keypress_KeyR removeBodies_floor_objects composition_of_removeBodies
            assms(1))
  next
    case 6
    then have hid: "\<not> floorIsShowing s" using sh by (simp add: floorIsShowing_keypress)
    then have "floor_objects (E s) = []" using assms(2) by (simp add: floor_consistent_def)
    from floor_present_makeFloor [OF assms(1) this] sh hid show ?thesis
      by (simp add: floor_present_def 6 E_keypress_KeyF)
  next
    case 7
    then have "code \<noteq> ''KeyF''" by auto
    then have fp: "floor_present s" using sh assms(3) by (simp add: floorIsShowing_keypress)
    show ?thesis
      by (rule floor_present_E [OF fp sh]) (simp_all add: E_keypress_other [OF 7])
  qed
qed

lemma floor_present_step:
  assumes "wf_engine (E s)" "floor_consistent s" "floorIsShowing s \<longrightarrow> floor_present s"
  shows "floorIsShowing (step ev s) \<longrightarrow> floor_present (step ev s)"
proof (cases ev)
  case (KeyPress code)
  then show ?thesis using floor_present_keypress [OF assms] by simp
next
  case (IntervalFire t)
  show ?thesis
  proof (cases "t \<in> set (timers s)")
    case False
    then show ?thesis using IntervalFire assms(3) by simp
  next
    case True
    let ?s = "s\<lparr>rng := snd (generateRandomObjectParams (rng s))\<rparr>"
    have "floor_present (autoSpawn s)" if "floorIsShowing s"
    proof -
      have "wf_engine (E ?s)" "floor_present ?s"
        using assms(1,3) that by (simp_all add: floor_present_def)
      then show ?thesis unfolding E_autoSpawn by (rule floor_present_generateRandomObject)
    qed
    then show ?thesis using IntervalFire True
      by (simp add: E_autoSpawn floorIsShowing_generateRandomObject)
  qed
next
  case (AnimationFrame fr)
  have "floor_present (s\<lparr>E := render fr (E s)\<rparr>)" if "floor_present s"
    by (rule floor_present_E [OF that])
       (use that in \<open>simp_all add: floor_present_def floor_objects_render composition_of_render\<close>)
  then show ?thesis using AnimationFrame assms(3) by simp
qed

lemma floor_present_run:
  assumes "wf_engine (E s)" "floor_consistent s" "floorIsShowing s \<longrightarrow> floor_present s"
  shows "floorIsShowing (run evs s) \<longrightarrow> floor_present (run evs s)"
  using assms unfolding run_def
proof (induction evs arbitrary: s)
  case Nil
  then show ?case by simp
next
  case (Cons ev evs)
  from inv_step [OF Cons.prems(1,2), of ev] floor_present_step [OF Cons.prems, of ev]
  show ?case by (simp add: Cons.IH)
qed

lemma floor_present_app_init: "floor_present (app_init fr g)"
proof -
  let ?eng = "(render fr new_Engine)\<lparr>renderCallback := Some Readout_callback\<rparr>"
  have "nextMeshId ?eng = 0"
    by (simp add: render_frame) (simp add: new_Engine_def)
  with makeFloor_composition [of ?eng] show ?thesis
    by (simp add: floor_present_def app_init_simps floor_objects_app_init)
       (simp add: app_init_def eval_nat_numeral)
qed

lemma other_objects_app_init: "other_objects (E (app_init fr g)) = []"
proof -
  let ?eng = "(render fr new_Engine)\<lparr>renderCallback := Some Readout_callback\<rparr>"
  have wf: "wf_engine ?eng"
    by (simp add: wf_engine_renderCallback wf_render wf_new_Engine)
  have "other_objects ?eng = []"
    by (simp add: other_objects_def render_frame) (simp add: new_Engine_def)
  then show ?thesis
    by (simp add: app_init_def makeFloor_floor_objects [OF wf])
qed


text \<open>
  After a frame the mesh of a static object of the registry is where its body is.
\<close>

lemma visual_render:
  assumes "composition_of eng r = Some c" "c_mass c = 0" "c_transform c = Some t"
    "r \<in> set (rigidBodies eng)"
  shows "map_option (\<lambda>m. (position m, quaternion m)) (meshes (render fr eng) r) =
     Some (Position_set (vx (origin t)) (vy (origin t)) (vz (origin t)), rotation t)"
proof -
  from assms(1) obtain m b where m: "meshes eng r = Some m"
    and b: "bodies eng (physicsBody m) = Some b"
    and c: "c = \<lparr>c_name = name m, c_geometry = geometry m, c_color = color m,
                 c_mass = mass b, c_shape = collisionShape b, c_transform = motionState b\<rparr>"
    by (auto simp: composition_of_def split: option.splits)
  have "mass b = 0" "motionState b = Some t" using assms(2,3) c by simp_all
  then have "transform_of (stepSimulation (motion fr) (delta fr) 10 eng) r = Some t"
    using m b by (simp add: transform_of_def stepSimulation_def)
  then show ?thesis using m assms(4) by (simp add: render_frame updatePhysics_meshes)
qed

lemma floor_panels_transform: "c \<in> set floor_panels \<Longrightarrow> c_transform c \<noteq> None"
  by (auto simp: floor_panels_def floor_panel_def)

lemma floor_visual_render:
  assumes "map (composition_of eng) (floor_objects eng) = map Some floor_panels"
  shows "map (\<lambda>r. map_option (\<lambda>m. (position m, quaternion m)) (meshes (render fr eng) r))
           (floor_objects eng) =
         map (\<lambda>c. map_option (\<lambda>t. (Position_set (vx (origin t)) (vy (origin t)) (vz (origin t)),
                                      rotation t)) (c_transform c)) floor_panels"
proof -
  let ?h = "\<lambda>co. case co of None \<Rightarrow> None
      | Some c \<Rightarrow> map_option (\<lambda>t. (Position_set (vx (origin t)) (vy (origin t)) (vz (origin t)),
                                   rotation t)) (c_transform c)"
  have "map_option (\<lambda>m. (position m, quaternion m)) (meshes (render fr eng) r) =
      ?h (composition_of eng r)" if "r \<in> set (floor_objects eng)" for r
  proof -
    from that have "composition_of eng r \<in> set (map (composition_of eng) (floor_objects eng))"
      by simp
    then have "composition_of eng r \<in> Some ` set floor_panels" by (simp add: assms)
    then obtain c where c: "composition_of eng r = Some c" "c \<in> set floor_panels" by auto
    from floor_panels_transform [OF c(2)] obtain t where t: "c_transform c = Some t" by auto
    have "r \<in> set (rigidBodies eng)" using that by (simp add: floor_objects_def)
    from visual_render [OF c(1) floor_panels_static [OF c(2)] t this] show ?thesis
      by (simp add: c(1) t)
  qed
  then have "map (\<lambda>r. map_option (\<lambda>m. (position m, quaternion m)) (meshes (render fr eng) r))
      (floor_objects eng) = map (\<lambda>r. ?h (composition_of eng r)) (floor_objects eng)"
    by simp
  also have "\<dots> = map ?h (map (composition_of eng) (floor_objects eng))" by (simp add: comp_def)
  also have "\<dots> = map ?h (map Some floor_panels)" by (simp only: assms)
  finally show ?thesis by (simp add: comp_def)
qed

lemma sample_state:
  "wf_engine (E (keypress ''KeyB'' (app_init fr g)))"
  "floor_objects (E (keypress ''KeyB'' (app_init fr g))) = [0, 1, 2, 3, 4]"
  "other_objects (E (keypress ''KeyB'' (app_init fr g))) = [5]"
proof -
  show "wf_engine (E (keypress ''KeyB'' (app_init fr g)))"
    using inv_keypress inv_app_init by blast
  show "floor_objects (E (keypress ''KeyB'' (app_init fr g))) = [0, 1, 2, 3, 4]"
    by (simp add: E_keypress_spawn spawn_floor_objects wf_app_init floor_objects_app_init)
  show "other_objects (E (keypress ''KeyB'' (app_init fr g))) = [5]"
    by (simp add: E_keypress_spawn spawn_floor_objects wf_app_init app_init_simps
        other_objects_app_init)
qed

section \<open>C2: the key R\<close>

text \<open>
  Claim C2: in every state of the program, the key R takes every object whose name is not
  \<open>floor\<close> out of the scene, its body out of the physics world, and the object out of the
  registry, in the one step of the listener. Afterwards the registry is the list of the
  floor objects it had, in their order, and holds no other object; the floor objects are in
  the scene and their bodies in the world exactly as before.
\<close>

theorem KeyR_removes_non_floor:
  assumes "wf_engine (E s)"
  shows "rigidBodies (E (keypress ''KeyR'' s)) = floor_objects (E s) \<and>
         floor_objects (E (keypress ''KeyR'' s)) = floor_objects (E s) \<and>
         other_objects (E (keypress ''KeyR'' s)) = [] \<and>
         (\<forall>r \<in> set (other_objects (E s)).
            r \<notin> set (scene (E (keypress ''KeyR'' s))) \<and>
            body_of (E s) r \<notin> set (physicsUniverse (E (keypress ''KeyR'' s))) \<and>
            r \<notin> set (rigidBodies (E (keypress ''KeyR'' s)))) \<and>
         (\<forall>r \<in> set (floor_objects (E s)).
            (r \<in> set (scene (E (keypress ''KeyR'' s)))) = (r \<in> set (scene (E s))) \<and>
            (body_of (E s) r \<in> set (physicsUniverse (E (keypress ''KeyR'' s)))) =
              (body_of (E s) r \<in> set (physicsUniverse (E s)))) \<and>
         meshes (E (keypress ''KeyR'' s)) = meshes (E s) \<and>
         bodies (E (keypress ''KeyR'' s)) = bodies (E s) \<and>
         floorIsShowing (keypress ''KeyR'' s) = floorIsShowing s"
proof -
  let ?t = "\<lambda>n. n \<noteq> ''floor''"
  let ?eng = "E s"
  let ?eng' = "removeBodies ?t ?eng"
  have reg: "rigidBodies ?eng' = floor_objects ?eng"
    by (simp add: removeBodies_registry [OF assms] floor_objects_def)
  have fl: "floor_objects ?eng' = floor_objects ?eng"
    by (simp add: floor_objects_def [of ?eng'] reg removeBodies_mesh_name)
       (simp add: floor_objects_def)
  have ot: "other_objects ?eng' = []"
    by (simp add: other_objects_def [of ?eng'] reg removeBodies_mesh_name)
       (simp add: floor_objects_def)
  have sc: "set (scene ?eng') = set (scene ?eng) - set (other_objects ?eng)"
    by (simp add: removeBodies_scene [OF assms] other_objects_def)
  have pu: "set (physicsUniverse ?eng') =
      set (physicsUniverse ?eng) - body_of ?eng ` set (other_objects ?eng)"
    by (simp add: removeBodies_physicsUniverse [OF assms] other_objects_def)
  have removed: "r \<notin> set (scene ?eng') \<and> body_of ?eng r \<notin> set (physicsUniverse ?eng') \<and>
      r \<notin> set (rigidBodies ?eng')" if "r \<in> set (other_objects ?eng)" for r
    using that by (auto simp: sc pu reg floor_objects_def other_objects_def)
  have kept: "(r \<in> set (scene ?eng')) = (r \<in> set (scene ?eng)) \<and>
      (body_of ?eng r \<in> set (physicsUniverse ?eng')) = (body_of ?eng r \<in> set (physicsUniverse ?eng))"
    if "r \<in> set (floor_objects ?eng)" for r
  proof -
    have "r \<notin> set (other_objects ?eng)"
      using that by (auto simp: floor_objects_def other_objects_def)
    moreover have "body_of ?eng r \<notin> body_of ?eng ` set (other_objects ?eng)"
    proof
      assume "body_of ?eng r \<in> body_of ?eng ` set (other_objects ?eng)"
      then obtain r' where r': "r' \<in> set (other_objects ?eng)" "body_of ?eng r = body_of ?eng r'"
        by blast
      then have "r = r'"
        using that body_of_inj [OF assms, of r r']
        by (auto simp: floor_objects_def other_objects_def)
      with r' that show False by (auto simp: floor_objects_def other_objects_def)
    qed
    ultimately show ?thesis by (simp add: sc pu)
  qed
  show ?thesis
    unfolding E_keypress_KeyR
    using reg fl ot removed kept by (simp add: removeBodies_frame)
qed

theorem KeyR_removes_non_floor_witness:
  "wf_engine (E (keypress ''KeyB'' (app_init \<lparr>delta = 0, motion = \<lambda>p. None\<rparr> (sconst (1/2))))) \<and>
   5 \<in> set (other_objects (E (keypress ''KeyB'' (app_init \<lparr>delta = 0, motion = \<lambda>p. None\<rparr> (sconst (1/2)))))) \<and>
   0 \<in> set (floor_objects (E (keypress ''KeyB'' (app_init \<lparr>delta = 0, motion = \<lambda>p. None\<rparr> (sconst (1/2)))))) \<and>
   rigidBodies (E (keypress ''KeyR'' (keypress ''KeyB''
      (app_init \<lparr>delta = 0, motion = \<lambda>p. None\<rparr> (sconst (1/2)))))) = [0, 1, 2, 3, 4] \<and>
   5 \<notin> set (scene (E (keypress ''KeyR'' (keypress ''KeyB''
      (app_init \<lparr>delta = 0, motion = \<lambda>p. None\<rparr> (sconst (1/2)))))))"
proof -
  let ?s = "keypress ''KeyB'' (app_init \<lparr>delta = 0, motion = \<lambda>p. None\<rparr> (sconst (1/2)))"
  have wf: "wf_engine (E ?s)" by (rule sample_state)
  have o: "5 \<in> set (other_objects (E ?s))" and f: "0 \<in> set (floor_objects (E ?s))"
    by (simp_all add: sample_state)
  note t = KeyR_removes_non_floor [OF wf]
  have reg: "rigidBodies (E (keypress ''KeyR'' ?s)) = [0, 1, 2, 3, 4]"
    using t [THEN conjunct1] by (simp add: sample_state)
  note removed = t [THEN conjunct2, THEN conjunct2, THEN conjunct2, THEN conjunct1, rule_format]
  have "5 \<notin> set (scene (E (keypress ''KeyR'' ?s)))"
    using removed [OF o] by (rule conjunct1)
  with wf o f reg show ?thesis by (intro conjI)
qed

section \<open>C5: the key F, twice\<close>

text \<open>
  Claim C5: in every state of the program, reached from the start by any keys, firings of
  the timer and frames, in which the registry holds floor objects, these are the five
  panels as \<open>makeFloor\<close> builds them, and the key F pressed twice (the first removes the
  floor, the second makes it anew) leads to a state in which the floor is present again: the
  floor objects are as many, and they have, one by one, the same name, geometry, colour,
  mass (zero), collision shape and world transform (position and orientation) as those of
  the state before, and whatever frame comes next, it leaves their meshes with the same
  positions and quaternions as it would have left those of the state before. The other
  objects stay as they are.
\<close>

theorem KeyF_twice_restores_floor:
  assumes "s = run evs (app_init fr g)" and "floor_objects (E s) \<noteq> []"
  shows "floor_present s \<and>
         floor_present (keypress ''KeyF'' (keypress ''KeyF'' s)) \<and>
         map (composition_of (E (keypress ''KeyF'' (keypress ''KeyF'' s))))
             (floor_objects (E (keypress ''KeyF'' (keypress ''KeyF'' s)))) =
           map (composition_of (E s)) (floor_objects (E s)) \<and>
         length (floor_objects (E (keypress ''KeyF'' (keypress ''KeyF'' s)))) =
           length (floor_objects (E s)) \<and>
         length (floor_objects (E s)) = 5 \<and>
         (\<forall>fr'. map (\<lambda>r. map_option (\<lambda>m. (position m, quaternion m))
                              (meshes (render fr' (E (keypress ''KeyF'' (keypress ''KeyF'' s)))) r))
                 (floor_objects (E (keypress ''KeyF'' (keypress ''KeyF'' s)))) =
               map (\<lambda>r. map_option (\<lambda>m. (position m, quaternion m)) (meshes (render fr' (E s)) r))
                 (floor_objects (E s))) \<and>
         other_objects (E (keypress ''KeyF'' (keypress ''KeyF'' s))) = other_objects (E s) \<and>
         \<not> floorIsShowing (keypress ''KeyF'' s) \<and>
         floor_objects (E (keypress ''KeyF'' s)) = []"
proof -
  let ?s1 = "keypress ''KeyF'' s"
  let ?s2 = "keypress ''KeyF'' ?s1"
  have wf: "wf_engine (E s)" and fc: "floor_consistent s"
    using inv_run [of "app_init fr g" evs] inv_app_init [of fr g] by (simp_all add: assms(1))
  have showing: "floorIsShowing s"
    using fc assms(2) by (auto simp: floor_consistent_def split: if_splits)
  have "floorIsShowing (app_init fr g) \<longrightarrow> floor_present (app_init fr g)"
    by (simp add: floor_present_app_init)
  then have "floorIsShowing s \<longrightarrow> floor_present s"
    unfolding assms(1) using inv_app_init [of fr g] by (intro floor_present_run) simp_all
  then have fp: "floor_present s" using showing by simp
  then have comp: "map (composition_of (E s)) (floor_objects (E s)) = map Some floor_panels"
    by (simp add: floor_present_def)
  have E1: "E ?s1 = removeBodies (\<lambda>n. n = ''floor'') (E s)"
    using showing by (simp add: E_keypress_KeyF)
  have f1: "\<not> floorIsShowing ?s1" using showing by (simp add: floorIsShowing_keypress)
  have wf1: "wf_engine (E ?s1)" by (simp add: E1 wf_removeBodies wf)
  have fl1: "floor_objects (E ?s1) = []" and ot1: "other_objects (E ?s1) = other_objects (E s)"
    by (simp_all add: E1 removeBodies_floor_objects [OF wf])
  have E2: "E ?s2 = makeFloor (E ?s1)" using f1 by (simp add: E_keypress_KeyF)
  have f2: "floorIsShowing ?s2" using f1 by (simp add: floorIsShowing_keypress)
  have comp2: "map (composition_of (E ?s2)) (floor_objects (E ?s2)) = map Some floor_panels"
    unfolding E2 using wf1 fl1 by (rule floor_present_makeFloor)
  have ot2: "other_objects (E ?s2) = other_objects (E s)"
    by (simp add: E2 makeFloor_floor_objects(2) [OF wf1] ot1)
  have len: "length (floor_objects (E ?s2)) = length (floor_objects (E s))"
    using arg_cong [OF comp2, of length] arg_cong [OF comp, of length] by simp
  have five: "length (floor_objects (E s)) = 5"
    using fc showing by (simp add: floor_consistent_def)
  have vis: "map (\<lambda>r. map_option (\<lambda>m. (position m, quaternion m)) (meshes (render fr' (E ?s2)) r))
        (floor_objects (E ?s2)) =
      map (\<lambda>r. map_option (\<lambda>m. (position m, quaternion m)) (meshes (render fr' (E s)) r))
        (floor_objects (E s))" for fr'
    by (simp only: floor_visual_render [OF comp] floor_visual_render [OF comp2])
  have fp2: "floor_present ?s2" using f2 comp2 by (simp add: floor_present_def)
  have eq: "map (composition_of (E ?s2)) (floor_objects (E ?s2)) =
      map (composition_of (E s)) (floor_objects (E s))"
    by (simp only: comp comp2)
  from fp fp2 eq len five vis ot2 f1 fl1 show ?thesis by (intro conjI allI)
qed

theorem KeyF_twice_restores_floor_witness:
  "floor_objects (E (run [KeyPress ''KeyB'', AnimationFrame \<lparr>delta = 1/60, motion = \<lambda>p. None\<rparr>]
        (app_init \<lparr>delta = 0, motion = \<lambda>p. None\<rparr> (sconst (1/2))))) \<noteq> [] \<and>
   floor_present (run [KeyPress ''KeyB'', AnimationFrame \<lparr>delta = 1/60, motion = \<lambda>p. None\<rparr>]
        (app_init \<lparr>delta = 0, motion = \<lambda>p. None\<rparr> (sconst (1/2)))) \<and>
   length (floor_objects (E (keypress ''KeyF'' (keypress ''KeyF''
      (run [KeyPress ''KeyB'', AnimationFrame \<lparr>delta = 1/60, motion = \<lambda>p. None\<rparr>]
        (app_init \<lparr>delta = 0, motion = \<lambda>p. None\<rparr> (sconst (1/2)))))))) = 5 \<and>
   other_objects (E (keypress ''KeyF'' (keypress ''KeyF''
      (run [KeyPress ''KeyB'', AnimationFrame \<lparr>delta = 1/60, motion = \<lambda>p. None\<rparr>]
        (app_init \<lparr>delta = 0, motion = \<lambda>p. None\<rparr> (sconst (1/2))))))) = [5]"
proof -
  let ?fr = "\<lparr>delta = 1/60, motion = \<lambda>p. None\<rparr> :: frame"
  let ?init = "app_init \<lparr>delta = 0, motion = \<lambda>p. None\<rparr> (sconst (1/2))"
  let ?s = "run [KeyPress ''KeyB'', AnimationFrame ?fr] ?init"
  have s: "?s = (keypress ''KeyB'' ?init)\<lparr>E := render ?fr (E (keypress ''KeyB'' ?init))\<rparr>"
    by (simp add: run_def)
  have fl: "floor_objects (E ?s) = [0, 1, 2, 3, 4]"
    and ot: "other_objects (E ?s) = [5]"
    unfolding s by (simp_all add: floor_objects_render other_objects_render sample_state)
  then have h: "floor_objects (E ?s) \<noteq> []" by simp
  note t = KeyF_twice_restores_floor [OF refl h]
  have "length (floor_objects (E (keypress ''KeyF'' (keypress ''KeyF'' ?s)))) = 5"
    using t [THEN conjunct2, THEN conjunct2, THEN conjunct2, THEN conjunct1] by (simp only: fl) simp
  moreover have "other_objects (E (keypress ''KeyF'' (keypress ''KeyF'' ?s))) = [5]"
    using t [THEN conjunct2, THEN conjunct2, THEN conjunct2, THEN conjunct2, THEN conjunct2,
      THEN conjunct2, THEN conjunct1]
    by (simp only: ot)
  ultimately show ?thesis using h t [THEN conjunct1] by (intro conjI)
qed

section \<open>C9: the flag and the floor\<close>

text \<open>
  Claim C9: after the initialisation and any sequence of keys, timer firings and frames,
  \<open>floorIsShowing\<close> is true exactly when the registry holds five objects named
  \<open>floor\<close>, and false exactly when it holds none; and the key F flips the flag.
\<close>

theorem floorIsShowing_invariant:
  "floorIsShowing (run evs (app_init fr g)) =
     (length (floor_objects (E (run evs (app_init fr g)))) = 5) \<and>
   (\<not> floorIsShowing (run evs (app_init fr g))) =
     (floor_objects (E (run evs (app_init fr g))) = []) \<and>
   floorIsShowing (keypress ''KeyF'' (run evs (app_init fr g))) =
     (\<not> floorIsShowing (run evs (app_init fr g)))"
proof -
  let ?s = "run evs (app_init fr g)"
  have "floor_consistent ?s"
    using inv_run [of "app_init fr g" evs] inv_app_init [of fr g] by simp
  then have "floorIsShowing ?s = (length (floor_objects (E ?s)) = 5) \<and>
      (\<not> floorIsShowing ?s) = (floor_objects (E ?s) = [])"
    by (auto simp: floor_consistent_def split: if_splits)
  moreover have "floorIsShowing (keypress ''KeyF'' ?s) = (\<not> floorIsShowing ?s)"
    by (simp add: floorIsShowing_keypress)
  ultimately show ?thesis by blast
qed

theorem floorIsShowing_invariant_witness:
  "\<not> floorIsShowing (run [KeyPress ''KeyB'', KeyPress ''KeyF'', AnimationFrame \<lparr>delta = 1/60, motion = \<lambda>p. None\<rparr>]
       (app_init \<lparr>delta = 0, motion = \<lambda>p. None\<rparr> (sconst (1/2)))) \<and>
   floor_objects (E (run [KeyPress ''KeyB'', KeyPress ''KeyF'', AnimationFrame \<lparr>delta = 1/60, motion = \<lambda>p. None\<rparr>]
       (app_init \<lparr>delta = 0, motion = \<lambda>p. None\<rparr> (sconst (1/2))))) = []"
proof -
  let ?evs = "[KeyPress ''KeyB'', KeyPress ''KeyF'', AnimationFrame \<lparr>delta = 1/60, motion = \<lambda>p. None\<rparr>]"
  let ?s = "run ?evs (app_init \<lparr>delta = 0, motion = \<lambda>p. None\<rparr> (sconst (1/2)))"
  have f: "\<not> floorIsShowing ?s"
    by (simp add: run_def floorIsShowing_keypress app_init_simps)
  note t = floorIsShowing_invariant [of ?evs "\<lparr>delta = 0, motion = \<lambda>p. None\<rparr>" "sconst (1/2)"]
  from t [THEN conjunct2, THEN conjunct1] f have "floor_objects (E ?s) = []" by blast
  with f show ?thesis by (intro conjI)
qed

end
